theory Spec2Isabelle
  imports Main "HOL-Library.AList" "HOL-Library.Sublist"
begin

section \<open>Python values\<close>

text \<open>
  A Python \<open>str\<close> is modelled as a \<open>string\<close> whose characters are the code points
  below 256; on these \<open>str.isspace\<close> and \<open>str.lower\<close> are the functions written out
  below. The values that \<open>response.json()\<close> produces are the type \<open>json\<close>; a float is
  carried by its literal, since the program only copies it. A parsed object is an
  association list with one entry per key, read with \<open>map_of\<close> as \<open>dict.get\<close> reads it.
\<close>

datatype json =
    JNull
  | JBool bool
  | JInt int
  | JFloat string
  | JStr string
  | JArr "json list"
  | JObj "(string \<times> json) list"

datatype py_error = RequestException | JSONDecodeError | AttributeError | TypeError

type_synonym dict = "(string \<times> json) list"

text \<open>\<open>d.get(k, dflt)\<close> on a dict.\<close>

definition dict_get :: "dict \<Rightarrow> string \<Rightarrow> json \<Rightarrow> json" where
  "dict_get d k dflt = (case map_of d k of None \<Rightarrow> dflt | Some v \<Rightarrow> v)"

text \<open>\<open>x.get(k, dflt)\<close> on any value: only a dict has the method.\<close>

fun py_get :: "json \<Rightarrow> string \<Rightarrow> json \<Rightarrow> py_error + json" where
  "py_get (JObj d) k dflt = Inr (dict_get d k dflt)"
| "py_get _ k dflt = Inl AttributeError"

text \<open>
  \<open>x[:n]\<close>: lists and strings are sliced, everything else raises (a dict raises
  \<open>TypeError\<close> or, from Python 3.12 on, \<open>KeyError\<close>; the model has one constructor for both).
\<close>

fun py_slice_to :: "nat \<Rightarrow> json \<Rightarrow> py_error + json" where
  "py_slice_to n (JArr xs) = Inr (JArr (take n xs))"
| "py_slice_to n (JStr s) = Inr (JStr (take n s))"
| "py_slice_to n _ = Inl TypeError"

text \<open>
  Iteration, as \<open>enumerate\<close> performs it: a list yields its items, a string its
  characters, a dict its keys, and anything else is not iterable.
\<close>

fun py_iter :: "json \<Rightarrow> py_error + json list" where
  "py_iter (JArr xs) = Inr xs"
| "py_iter (JStr s) = Inr (map (\<lambda>c. JStr [c]) s)"
| "py_iter (JObj d) = Inr (map (\<lambda>kv. JStr (fst kv)) d)"
| "py_iter _ = Inl TypeError"

text \<open>Truthiness of a value that is \<open>None\<close> or a \<open>str\<close>: \<open>if error:\<close>.\<close>

fun truthy :: "string option \<Rightarrow> bool" where
  "truthy None = False"
| "truthy (Some s) = (s \<noteq> [])"

subsection \<open>Decimal rendering of integers\<close>

definition digit_char :: "nat \<Rightarrow> char" where
  "digit_char d = ''0123456789'' ! d"

function str_nat :: "nat \<Rightarrow> string" where
  "str_nat n = (if n < 10 then [digit_char n] else str_nat (n div 10) @ [digit_char (n mod 10)])"
  by pat_completeness auto
termination
  by (relation "measure (\<lambda>n. n)") auto

declare str_nat.simps [simp del]

definition str_int :: "int \<Rightarrow> string" where
  "str_int i = (if i < 0 then CHR ''-'' # str_nat (nat (- i)) else str_nat (nat i))"

subsection \<open>\<open>str.strip\<close> and \<open>str.lower\<close>\<close>

definition isspace :: "char \<Rightarrow> bool" where
  "isspace c = ((of_char c :: nat) \<in> {9, 10, 11, 12, 13, 28, 29, 30, 31, 32, 133, 160})"

definition strip :: "string \<Rightarrow> string" where
  "strip s = rev (dropWhile isspace (rev (dropWhile isspace s)))"

definition isupper :: "char \<Rightarrow> bool" where
  "isupper c = (let n = (of_char c :: nat) in (65 \<le> n \<and> n \<le> 90) \<or> (192 \<le> n \<and> n \<le> 222 \<and> n \<noteq> 215))"

definition lower_char :: "char \<Rightarrow> char" where
  "lower_char c = (if isupper c then char_of ((of_char c :: nat) + 32) else c)"

definition lower :: "string \<Rightarrow> string" where
  "lower s = map lower_char s"

section \<open>The result formatter\<close>

text \<open>
  A row is a Python dict from column name to value. Insertion order is kept, and an
  assignment to a key that is present overwrites in place: \<open>AList.update\<close>.
\<close>

type_synonym row = "(string \<times> json) list"

text \<open>
  The body of the loop of \<open>format_results_for_csv\<close> for one result \<open>r\<close> at index \<open>i\<close>.
  Every \<open>r.get\<close> raises when \<open>r\<close> is not a dict, so the first of them decides.
\<close>

fun format_result :: "nat \<Rightarrow> json \<Rightarrow> row \<Rightarrow> py_error + row" where
  "format_result i (JObj r) row = Inr (
     AList.update (''Position '' @ str_nat i) (dict_get r ''position'' (JStr ''''))
    (AList.update (''ProductId '' @ str_nat i) (dict_get r ''productId'' (JStr ''''))
    (AList.update (''RatingCount '' @ str_nat i) (dict_get r ''ratingCount'' (JStr ''''))
    (AList.update (''Rating '' @ str_nat i) (dict_get r ''rating'' (JStr ''''))
    (AList.update (''ImageURL '' @ str_nat i) (dict_get r ''imageUrl'' (JStr ''''))
    (AList.update (''Price '' @ str_nat i) (dict_get r ''price'' (JStr ''''))
    (AList.update (''Link '' @ str_nat i) (dict_get r ''link'' (JStr ''''))
    (AList.update (''Source '' @ str_nat i) (dict_get r ''source'' (JStr ''''))
    (AList.update (''Title '' @ str_nat i) (dict_get r ''title'' (JStr '''')) row)))))))))"
| "format_result i _ row = Inl AttributeError"

fun format_loop :: "nat \<Rightarrow> json list \<Rightarrow> row \<Rightarrow> py_error + row" where
  "format_loop i [] row = Inr row"
| "format_loop i (r # rs) row =
     (case format_result i r row of
        Inl e \<Rightarrow> Inl e
      | Inr row' \<Rightarrow> format_loop (Suc i) rs row')"

definition format_results_for_csv :: "string \<Rightarrow> json \<Rightarrow> string option \<Rightarrow> py_error + row" where
  "format_results_for_csv product_title results error =
     (let row = [(''Product Title'', JStr product_title),
                 (''Search Status'', JStr (if truthy error then ''Error'' else ''Success''))]
      in if truthy error
         then Inr (AList.update ''Error Message'' (case error of Some e \<Rightarrow> JStr e | None \<Rightarrow> JNull) row)
         else (case py_iter results of
                 Inl e \<Rightarrow> Inl e
               | Inr rs \<Rightarrow> format_loop 1 rs row))"

section \<open>The HTTP layer\<close>

text \<open>
  A request is what \<open>requests.get(url, params=...)\<close> or
  \<open>requests.post(url, headers=..., data=json.dumps(...))\<close> is given; the body of a POST
  is carried as the object handed to \<open>json.dumps\<close>. A response has the three parts the
  program reads: the status code, the raw text, and what \<open>response.json()\<close> yields
  (\<open>None\<close> when the body does not parse, which raises there).

  The provider is outside the program. It is a parameter \<open>srv\<close>: given the requests made so
  far and the next one, it answers with a response or the call raises. The state the
  program threads is the list of requests sent.
\<close>

datatype request =
    GET string "(string \<times> string) list"
  | POST string "(string \<times> string) list" json

record response =
  status_code :: int
  resp_text :: string
  resp_json :: "json option"

type_synonym provider = "request list \<Rightarrow> request \<Rightarrow> py_error + response"

definition requests_send :: "provider \<Rightarrow> request list \<Rightarrow> request \<Rightarrow> (py_error + response) \<times> request list" where
  "requests_send srv sent req = (srv sent req, sent @ [req])"

definition response_json :: "response \<Rightarrow> py_error + json" where
  "response_json response = (case resp_json response of None \<Rightarrow> Inl JSONDecodeError | Some data \<Rightarrow> Inr data)"

section \<open>The search clients\<close>

definition google_custom_search ::
  "provider \<Rightarrow> request list \<Rightarrow> string \<Rightarrow> string \<Rightarrow> string \<Rightarrow> (py_error + json) \<times> request list" where
  "google_custom_search srv sent query api_key cx =
     (let url = ''https://www.googleapis.com/customsearch/v1'';
          params = [(''key'', api_key), (''cx'', cx), (''q'', query)];
          (reply, sent') = requests_send srv sent (GET url params)
      in case reply of
           Inl e \<Rightarrow> (Inl e, sent')
         | Inr response \<Rightarrow>
             if status_code response \<noteq> 200
             then (Inr (JObj [(''error'', JStr (''Google Custom Search API error: ''
                      @ str_int (status_code response) @ '' - '' @ resp_text response))]), sent')
             else (case response_json response of
                     Inl e \<Rightarrow> (Inl e, sent')
                   | Inr data \<Rightarrow> (py_get data ''items'' (JArr []), sent')))"

text \<open>The dict that \<open>search_serper_shopping\<close> returns.\<close>

record outcome =
  error :: "string option"
  results :: json

text \<open>The request of \<open>search_serper_shopping\<close> whose payload carries the locale \<open>gl\<close>.\<close>

definition shopping_request :: "string \<Rightarrow> string \<Rightarrow> string \<Rightarrow> request" where
  "shopping_request api_key query gl =
     POST ''https://google.serper.dev/shopping''
       [(''X-API-KEY'', api_key), (''Content-Type'', ''application/json'')]
       (JObj [(''q'', JStr query), (''gl'', JStr gl)])"

definition search_serper_shopping ::
  "provider \<Rightarrow> string \<Rightarrow> request list \<Rightarrow> string \<Rightarrow> string \<Rightarrow> (py_error + outcome) \<times> request list" where
  "search_serper_shopping srv api_key sent query country =
     (let (reply, sent') = requests_send srv sent (shopping_request api_key query (lower country))
      in case reply of
           Inl e \<Rightarrow> (Inl e, sent')
         | Inr response \<Rightarrow>
             if status_code response \<noteq> 200
             then (Inr \<lparr>error = Some (''Serper API error: '' @ str_int (status_code response)
                         @ '' - '' @ resp_text response),
                       results = JArr []\<rparr>, sent')
             else (case response_json response of
                     Inl e \<Rightarrow> (Inl e, sent')
                   | Inr data \<Rightarrow>
                       (case py_get data ''shopping'' (JArr []) of
                          Inl e \<Rightarrow> (Inl e, sent')
                        | Inr shopping_results \<Rightarrow>
                            (case py_slice_to 41 shopping_results of
                               Inl e \<Rightarrow> (Inl e, sent')
                             | Inr shopping_results' \<Rightarrow>
                                 (Inr \<lparr>error = None, results = shopping_results'\<rparr>, sent')))))"

section \<open>The bulk run\<close>

text \<open>
  The uploaded table as \<open>pandas.read_csv\<close> delivers it. A cell is observed only through
  \<open>str(...)\<close> and \<open>fillna\<close>, so it is either the missing value \<open>NaN\<close> or a value given by the
  text \<open>str\<close> renders it as. The table has no \<open>Product Title\<close> column, or that column alone,
  or that column and \<open>Country\<close>; other columns are never read.
\<close>

datatype cell = Str string | NaN

fun py_str :: "cell \<Rightarrow> string" where
  "py_str (Str s) = s"
| "py_str NaN = ''nan''"

datatype input_df =
    NoTitleColumn
  | TitleColumn "cell list"
  | TitleCountryColumns "(cell \<times> cell) list"

text \<open>\<open>fillna("us")\<close> on one cell.\<close>

fun fillna_us :: "cell \<Rightarrow> cell" where
  "fillna_us NaN = Str ''us''"
| "fillna_us c = c"

text \<open>
  Lines 136 to 143: \<open>None\<close> when the script stops for want of the \<open>Product Title\<close> column,
  otherwise the rows with their \<open>Country\<close> cell set or filled.
\<close>

fun fill_country :: "input_df \<Rightarrow> (cell \<times> cell) list option" where
  "fill_country NoTitleColumn = None"
| "fill_country (TitleColumn titles) = Some (map (\<lambda>t. (t, Str ''us'')) titles)"
| "fill_country (TitleCountryColumns rows) = Some (map (\<lambda>tc. (fst tc, fillna_us (snd tc))) rows)"

text \<open>The loop of lines 146 to 160; an exception ends the run.\<close>

fun bulk_loop ::
  "provider \<Rightarrow> string \<Rightarrow> (cell \<times> cell) list \<Rightarrow> request list \<Rightarrow> row list \<Rightarrow> (py_error + row list) \<times> request list" where
  "bulk_loop srv api_key [] sent all_rows = (Inr all_rows, sent)"
| "bulk_loop srv api_key (r # rest) sent all_rows =
     (let product_title = strip (py_str (fst r));
          country = lower (strip (py_str (snd r)))
      in if product_title = [] then bulk_loop srv api_key rest sent all_rows
         else (case search_serper_shopping srv api_key sent product_title country of
                 (Inl e, sent') \<Rightarrow> (Inl e, sent')
               | (Inr response, sent') \<Rightarrow>
                   (case (if truthy (error response)
                          then format_results_for_csv product_title (JArr []) (error response)
                          else format_results_for_csv product_title (results response) None) of
                      Inl e \<Rightarrow> (Inl e, sent')
                    | Inr formatted_row \<Rightarrow> bulk_loop srv api_key rest sent' (all_rows @ [formatted_row]))))"

datatype run_result = MissingColumn | Raised py_error | Report "row list"

definition run_bulk_search :: "provider \<Rightarrow> string \<Rightarrow> input_df \<Rightarrow> request list \<Rightarrow> run_result \<times> request list" where
  "run_bulk_search srv api_key input_df sent =
     (case fill_country input_df of
        None \<Rightarrow> (MissingColumn, sent)
      | Some rows \<Rightarrow>
          (case bulk_loop srv api_key rows sent [] of
             (Inl e, sent') \<Rightarrow> (Raised e, sent')
           | (Inr all_rows, sent') \<Rightarrow> (Report all_rows, sent')))"

section \<open>Vocabulary of the properties\<close>

text \<open>The nine columns written per result, each with the key it is read from.\<close>

definition column_keys :: "(string \<times> string) list" where
  "column_keys = [(''Title'', ''title''), (''Source'', ''source''), (''Link'', ''link''),
     (''Price'', ''price''), (''ImageURL'', ''imageUrl''), (''Rating'', ''rating''),
     (''RatingCount'', ''ratingCount''), (''ProductId'', ''productId''), (''Position'', ''position'')]"

definition columns :: "string list" where
  "columns = map fst column_keys"

text \<open>The name of an indexed column: \<open>f"{c} {i}"\<close>.\<close>

definition indexed_key :: "string \<Rightarrow> nat \<Rightarrow> string" where
  "indexed_key c i = c @ '' '' @ str_nat i"

definition result_fields :: "nat \<Rightarrow> dict \<Rightarrow> row" where
  "result_fields i r = map (\<lambda>ck. (indexed_key (fst ck) i, dict_get r (snd ck) (JStr ''''))) column_keys"

fun indexed_fields :: "nat \<Rightarrow> dict list \<Rightarrow> row" where
  "indexed_fields i [] = []"
| "indexed_fields i (r # rs) = result_fields i r @ indexed_fields (Suc i) rs"

text \<open>Reading a decimal rendering back, to show that \<open>str_nat\<close> is injective.\<close>

definition nat_of_digits :: "string \<Rightarrow> nat" where
  "nat_of_digits s = foldl (\<lambda>a c. 10 * a + ((of_char c :: nat) - 48)) 0 s"

text \<open>The message of the error branch of \<open>search_serper_shopping\<close>.\<close>

definition serper_error :: "response \<Rightarrow> string" where
  "serper_error response =
     ''Serper API error: '' @ str_int (status_code response) @ '' - '' @ resp_text response"

text \<open>
  A response the bulk run gets through without an exception: either its status is not
  200, or its body is an object whose \<open>shopping\<close> entry is absent or a list of objects.
\<close>

fun is_record :: "json \<Rightarrow> bool" where
  "is_record (JObj d) = True"
| "is_record _ = False"

fun the_record :: "json \<Rightarrow> dict" where
  "the_record (JObj d) = d"
| "the_record _ = []"

fun shopping_of :: "json option \<Rightarrow> json list option" where
  "shopping_of (Some (JObj d)) =
     (case map_of d ''shopping'' of None \<Rightarrow> Some [] | Some (JArr xs) \<Rightarrow> Some xs | Some _ \<Rightarrow> None)"
| "shopping_of _ = None"

definition success_reply :: "response \<Rightarrow> bool" where
  "success_reply response =
     (status_code response = 200 \<and>
      (case shopping_of (resp_json response) of None \<Rightarrow> False | Some xs \<Rightarrow> list_all is_record xs))"

definition usable_reply :: "response \<Rightarrow> bool" where
  "usable_reply response = (status_code response \<noteq> 200 \<or> success_reply response)"

text \<open>The row the bulk run appends for a usable reply to the query \<open>title\<close>.\<close>

definition reply_row :: "string \<Rightarrow> response \<Rightarrow> row" where
  "reply_row title response =
     (if status_code response \<noteq> 200
      then [(''Product Title'', JStr title), (''Search Status'', JStr ''Error''),
            (''Error Message'', JStr (serper_error response))]
      else [(''Product Title'', JStr title), (''Search Status'', JStr ''Success'')]
           @ indexed_fields 1 (map the_record
               (take 41 (case shopping_of (resp_json response) of None \<Rightarrow> [] | Some xs \<Rightarrow> xs))))"

text \<open>A row of the table is blank when its query text is empty after trimming.\<close>

definition blank_title :: "cell \<Rightarrow> bool" where
  "blank_title t = (strip (py_str t) = [])"

text \<open>
  The rows of a table with the \<open>Country\<close> cell as uploaded: \<open>None\<close> where the table has no
  such column.
\<close>

fun df_rows :: "input_df \<Rightarrow> (cell \<times> cell option) list" where
  "df_rows NoTitleColumn = []"
| "df_rows (TitleColumn titles) = map (\<lambda>t. (t, None)) titles"
| "df_rows (TitleCountryColumns rows) = map (\<lambda>tc. (fst tc, Some (snd tc))) rows"

text \<open>
  The locale of a row, as a function of its uploaded \<open>Country\<close> cell: \<open>us\<close> for a missing
  column or a missing value, otherwise the text trimmed and lower-cased.
\<close>

fun locale_of :: "cell option \<Rightarrow> string" where
  "locale_of None = ''us''"
| "locale_of (Some NaN) = ''us''"
| "locale_of (Some (Str s)) = lower (strip s)"

definition query_of :: "string \<Rightarrow> cell \<times> cell option \<Rightarrow> request" where
  "query_of api_key r = shopping_request api_key (strip (py_str (fst r))) (locale_of (snd r))"

text \<open>A row as the loop reads it, after lines 140 to 143 have set or filled its \<open>Country\<close>.\<close>

fun fill_row :: "cell \<times> cell option \<Rightarrow> cell \<times> cell" where
  "fill_row (t, None) = (t, Str ''us'')"
| "fill_row (t, Some c) = (t, fillna_us c)"

section \<open>Decimal renderings and column names\<close>

lemma of_char_digit_char: "d < 10 \<Longrightarrow> (of_char (digit_char d) :: nat) = 48 + d"
proof -
  assume "d < 10"
  then have "d \<in> {0, 1, 2, 3, 4, 5, 6, 7, 8, 9}" by auto
  then show ?thesis by (auto simp: digit_char_def)
qed

lemma nat_of_digits_str_nat: "nat_of_digits (str_nat n) = n"
proof (induction n rule: str_nat.induct)
  case (1 n)
  show ?case
  proof (cases "n < 10")
    case True
    then show ?thesis
      by (subst str_nat.simps) (simp add: nat_of_digits_def of_char_digit_char)
  next
    case False
    with "1" have "nat_of_digits (str_nat (n div 10)) = n div 10" by simp
    with False show ?thesis
      by (subst str_nat.simps) (simp add: nat_of_digits_def of_char_digit_char)
  qed
qed

lemma str_nat_inject: "str_nat m = str_nat n \<Longrightarrow> m = n"
  by (metis nat_of_digits_str_nat)

lemma split_at_space:
  "CHR '' '' \<notin> set a \<Longrightarrow> CHR '' '' \<notin> set c \<Longrightarrow> a @ CHR '' '' # b = c @ CHR '' '' # d \<Longrightarrow> a = c \<and> b = d"
proof (induction a arbitrary: c)
  case Nil
  then show ?case by (cases c) auto
next
  case (Cons x a)
  then show ?case by (cases c) auto
qed

lemma update_fresh: "k \<notin> fst ` set al \<Longrightarrow> AList.update k v al = al @ [(k, v)]"
  by (induction al) auto

lemma column_no_space: "c \<in> set columns \<Longrightarrow> CHR '' '' \<notin> set c"
  by (auto simp: columns_def column_keys_def)

lemma indexed_key_eq_iff:
  assumes "c \<in> set columns" "c' \<in> set columns"
  shows "(indexed_key c i = indexed_key c' j) = (c = c' \<and> i = j)"
proof
  assume "indexed_key c i = indexed_key c' j"
  then have "c @ CHR '' '' # str_nat i = c' @ CHR '' '' # str_nat j"
    by (simp add: indexed_key_def)
  with assms have "c = c' \<and> str_nat i = str_nat j"
    by (intro split_at_space column_no_space)
  then show "c = c' \<and> i = j" by (auto dest: str_nat_inject)
qed simp

lemma format_result_fresh:
  assumes "\<forall>c\<in>set columns. indexed_key c i \<notin> fst ` set row"
  shows "format_result i (JObj r) row = Inr (row @ result_fields i r)"
  using assms
  by (simp add: update_fresh result_fields_def column_keys_def columns_def indexed_key_def)

lemma fst_result_fields: "fst ` set (result_fields i r) = (\<lambda>c. indexed_key c i) ` set columns"
  by (simp add: result_fields_def columns_def image_image)

lemma distinct_result_fields: "distinct (map fst (result_fields i r))"
  by (simp add: result_fields_def column_keys_def indexed_key_def)

lemma length_indexed_fields: "length (indexed_fields i rs) = 9 * length rs"
  by (induction rs arbitrary: i) (simp_all add: result_fields_def column_keys_def)

lemma map_of_result_fields:
  assumes "(c, k) \<in> set column_keys"
  shows "map_of (result_fields i r) (indexed_key c i) = Some (dict_get r k (JStr ''''))"
proof -
  have "(c, k) \<in> {(''Title'', ''title''), (''Source'', ''source''), (''Link'', ''link''),
     (''Price'', ''price''), (''ImageURL'', ''imageUrl''), (''Rating'', ''rating''),
     (''RatingCount'', ''ratingCount''), (''ProductId'', ''productId''), (''Position'', ''position'')}"
    using assms by (simp add: column_keys_def)
  then show ?thesis
    by (elim insertE emptyE) (simp_all add: result_fields_def column_keys_def indexed_key_def)
qed

lemma in_result_fields:
  assumes "c \<in> set columns"
  shows "(indexed_key c j \<in> fst ` set (result_fields i r)) = (j = i)"
proof
  assume "indexed_key c j \<in> fst ` set (result_fields i r)"
  then obtain c' where "c' \<in> set columns" "indexed_key c j = indexed_key c' i"
    unfolding fst_result_fields by blast
  with assms show "j = i" by (simp add: indexed_key_eq_iff)
next
  assume "j = i"
  with assms show "indexed_key c j \<in> fst ` set (result_fields i r)"
    unfolding fst_result_fields by blast
qed

lemma in_indexed_fields:
  assumes "c \<in> set columns"
  shows "(indexed_key c j \<in> fst ` set (indexed_fields i rs)) = (i \<le> j \<and> j < i + length rs)"
proof (induction rs arbitrary: i)
  case Nil
  show ?case by simp
next
  case (Cons r rs)
  have "(indexed_key c j \<in> fst ` set (indexed_fields i (r # rs))) =
        (indexed_key c j \<in> fst ` set (result_fields i r) \<or>
         indexed_key c j \<in> fst ` set (indexed_fields (Suc i) rs))"
    by (simp add: image_Un)
  also have "\<dots> = (j = i \<or> (Suc i \<le> j \<and> j < Suc i + length rs))"
    by (simp only: in_result_fields [OF assms] Cons.IH)
  also have "\<dots> = (i \<le> j \<and> j < i + length (r # rs))"
    by auto
  finally show ?case .
qed

lemma indexed_fields_keys:
  "k \<in> fst ` set (indexed_fields i rs) \<Longrightarrow> \<exists>c\<in>set columns. \<exists>j. k = indexed_key c j"
proof (induction rs arbitrary: i)
  case Nil
  then show ?case by simp
next
  case (Cons r rs)
  from Cons.prems have "k \<in> fst ` set (result_fields i r) \<or> k \<in> fst ` set (indexed_fields (Suc i) rs)"
    by (simp add: image_Un)
  then show ?case
  proof
    assume "k \<in> fst ` set (result_fields i r)"
    then show ?thesis unfolding fst_result_fields by blast
  next
    assume "k \<in> fst ` set (indexed_fields (Suc i) rs)"
    then show ?thesis by (rule Cons.IH)
  qed
qed

lemma format_loop_objects:
  assumes "\<forall>c\<in>set columns. \<forall>j\<ge>i. indexed_key c j \<notin> fst ` set row"
  shows "format_loop i (map JObj rs) row = Inr (row @ indexed_fields i rs)"
  using assms
proof (induction rs arbitrary: i row)
  case Nil
  show ?case by simp
next
  case (Cons r rs)
  have "\<forall>c\<in>set columns. indexed_key c i \<notin> fst ` set row"
    using Cons.prems by blast
  then have step: "format_result i (JObj r) row = Inr (row @ result_fields i r)"
    by (rule format_result_fresh)
  have "\<forall>c\<in>set columns. \<forall>j\<ge>Suc i. indexed_key c j \<notin> fst ` set (row @ result_fields i r)"
  proof (intro ballI allI impI)
    fix c j
    assume c: "c \<in> set columns" and j: "Suc i \<le> j"
    from j have "i \<le> j" by simp
    with Cons.prems c have "indexed_key c j \<notin> fst ` set row" by blast
    moreover have "indexed_key c j \<notin> fst ` set (result_fields i r)"
      using j by (simp add: in_result_fields [OF c])
    ultimately show "indexed_key c j \<notin> fst ` set (row @ result_fields i r)"
      by (simp add: image_Un)
  qed
  then have "format_loop (Suc i) (map JObj rs) (row @ result_fields i r) =
     Inr ((row @ result_fields i r) @ indexed_fields (Suc i) rs)"
    by (rule Cons.IH)
  with step show ?case by simp
qed

lemma distinct_indexed_fields: "distinct (map fst (indexed_fields i rs))"
proof (induction rs arbitrary: i)
  case Nil
  show ?case by simp
next
  case (Cons r rs)
  have "fst ` set (result_fields i r) \<inter> fst ` set (indexed_fields (Suc i) rs) = {}"
  proof (rule ccontr)
    assume "fst ` set (result_fields i r) \<inter> fst ` set (indexed_fields (Suc i) rs) \<noteq> {}"
    then obtain k where k1: "k \<in> fst ` set (result_fields i r)"
      and k2: "k \<in> fst ` set (indexed_fields (Suc i) rs)" by blast
    from k1 obtain c where c: "c \<in> set columns" "k = indexed_key c i"
      unfolding fst_result_fields by blast
    with k2 have "Suc i \<le> i" by (simp add: in_indexed_fields)
    then show False by simp
  qed
  with Cons.IH [of "Suc i"] show ?case
    by (simp add: distinct_result_fields)
qed

lemma map_of_indexed_fields:
  assumes "(c, k) \<in> set column_keys" "j < length rs"
  shows "map_of (indexed_fields i rs) (indexed_key c (i + j)) = Some (dict_get (rs ! j) k (JStr ''''))"
  using assms(2)
proof (induction rs arbitrary: i j)
  case Nil
  then show ?case by simp
next
  case (Cons r rs)
  have c: "c \<in> set columns" using assms(1) by (force simp: columns_def)
  show ?case
  proof (cases j)
    case 0
    then show ?thesis
      by (simp add: map_of_append map_of_result_fields [OF assms(1)])
  next
    case (Suc j')
    with Cons.prems have j': "j' < length rs" by simp
    have "indexed_key c (i + j) \<notin> fst ` set (result_fields i r)"
      using Suc by (simp add: in_result_fields [OF c])
    then have "map_of (result_fields i r) (indexed_key c (i + j)) = None"
      by (simp add: map_of_eq_None_iff)
    moreover have "map_of (indexed_fields (Suc i) rs) (indexed_key c (Suc i + j')) =
        Some (dict_get (rs ! j') k (JStr ''''))"
      using j' by (rule Cons.IH)
    ultimately show ?thesis using Suc
      by (simp add: map_of_append map_add_def)
  qed
qed

lemma header_not_indexed:
  assumes "c \<in> set columns"
  shows "indexed_key c j \<noteq> ''Product Title''" "indexed_key c j \<noteq> ''Search Status''"
    "indexed_key c j \<noteq> ''Error Message''"
proof -
  have "c \<in> {''Title'', ''Source'', ''Link'', ''Price'', ''ImageURL'', ''Rating'',
     ''RatingCount'', ''ProductId'', ''Position''}"
    using assms by (simp add: columns_def column_keys_def)
  then have "indexed_key c j \<noteq> ''Product Title'' \<and> indexed_key c j \<noteq> ''Search Status'' \<and>
    indexed_key c j \<noteq> ''Error Message''"
    by (elim insertE emptyE) (simp_all add: indexed_key_def)
  then show "indexed_key c j \<noteq> ''Product Title''" "indexed_key c j \<noteq> ''Search Status''"
    "indexed_key c j \<noteq> ''Error Message''" by simp_all
qed

section \<open>The formatter and the search client, step by step\<close>

lemma format_success:
  "format_results_for_csv t (JArr (map JObj rs)) None =
     Inr ([(''Product Title'', JStr t), (''Search Status'', JStr ''Success'')] @ indexed_fields 1 rs)"
proof -
  have "\<forall>c\<in>set columns. \<forall>j\<ge>1. indexed_key c j \<notin>
      fst ` set [(''Product Title'', JStr t), (''Search Status'', JStr ''Success'')]"
    by (simp add: header_not_indexed)
  then have "format_loop 1 (map JObj rs) [(''Product Title'', JStr t), (''Search Status'', JStr ''Success'')] =
      Inr ([(''Product Title'', JStr t), (''Search Status'', JStr ''Success'')] @ indexed_fields 1 rs)"
    by (rule format_loop_objects)
  then show ?thesis by (simp add: format_results_for_csv_def)
qed

lemma format_error:
  "e \<noteq> [] \<Longrightarrow> format_results_for_csv t rs (Some e) =
     Inr [(''Product Title'', JStr t), (''Search Status'', JStr ''Error''), (''Error Message'', JStr e)]"
  by (simp add: format_results_for_csv_def)

lemma records_map: "list_all is_record xs \<Longrightarrow> map JObj (map the_record xs) = xs"
proof (induction xs)
  case Nil
  show ?case by simp
next
  case (Cons x xs)
  then show ?case by (cases x) simp_all
qed

lemma serper_error_nonempty: "serper_error r \<noteq> []"
  by (simp add: serper_error_def)

lemma search_error_status:
  assumes "srv sent (shopping_request key q (lower c)) = Inr resp" "status_code resp \<noteq> 200"
  shows "search_serper_shopping srv key sent q c =
     (Inr \<lparr>error = Some (serper_error resp), results = JArr []\<rparr>,
      sent @ [shopping_request key q (lower c)])"
  using assms by (simp add: search_serper_shopping_def requests_send_def serper_error_def)

lemma shopping_of_Some:
  assumes "shopping_of j = Some xs"
  obtains d where "j = Some (JObj d)" "py_get (JObj d) ''shopping'' (JArr []) = Inr (JArr xs)"
proof -
  from assms obtain d where d: "j = Some (JObj d)"
    by (cases j rule: shopping_of.cases) simp_all
  with assms have "py_get (JObj d) ''shopping'' (JArr []) = Inr (JArr xs)"
    by (auto simp: dict_get_def split: option.splits json.splits)
  with d show ?thesis by (rule that)
qed

lemma search_success:
  assumes "srv sent (shopping_request key q (lower c)) = Inr resp" "status_code resp = 200"
    "shopping_of (resp_json resp) = Some xs"
  shows "search_serper_shopping srv key sent q c =
     (Inr \<lparr>error = None, results = JArr (take 41 xs)\<rparr>,
      sent @ [shopping_request key q (lower c)])"
proof -
  from assms(3) obtain d where d: "resp_json resp = Some (JObj d)"
    "py_get (JObj d) ''shopping'' (JArr []) = Inr (JArr xs)"
    by (rule shopping_of_Some)
  with assms(1,2) show ?thesis
    by (simp add: search_serper_shopping_def requests_send_def response_json_def)
qed

lemma search_sent: "snd (search_serper_shopping srv key sent q c) = sent @ [shopping_request key q (lower c)]"
  by (simp add: search_serper_shopping_def requests_send_def split: sum.splits)

lemma isupper_lower_char: "\<not> isupper (lower_char c)"
proof (cases "isupper c")
  case False
  then show ?thesis by (simp add: lower_char_def)
next
  case True
  then have n: "(65 \<le> (of_char c :: nat) \<and> (of_char c :: nat) \<le> 90) \<or>
    (192 \<le> (of_char c :: nat) \<and> (of_char c :: nat) \<le> 222 \<and> (of_char c :: nat) \<noteq> 215)"
    by (simp add: isupper_def Let_def)
  then have "(of_char c :: nat) + 32 < 256" by auto
  then have "(of_char (char_of ((of_char c :: nat) + 32)) :: nat) = of_char c + 32"
    by simp
  with n True show ?thesis
    by (auto simp: lower_char_def isupper_def Let_def)
qed

lemma lower_no_upper: "ch \<in> set (lower s) \<Longrightarrow> \<not> isupper ch"
  by (auto simp: lower_def isupper_lower_char)

lemma lower_char_idem: "lower_char (lower_char c) = lower_char c"
  using isupper_lower_char [of c] by (simp add: lower_char_def [of "lower_char c"])

lemma lower_idem: "lower (lower s) = lower s"
  by (simp add: lower_def lower_char_idem)

lemma strip_us: "strip ''us'' = ''us''"
  by (simp add: strip_def isspace_def)

lemma lower_us: "lower ''us'' = ''us''"
  by (simp add: lower_def lower_char_def isupper_def)

section \<open>The bulk loop, step by step\<close>

lemma bulk_step_blank:
  "blank_title (fst r) \<Longrightarrow> bulk_loop srv key (r # rest) sent acc = bulk_loop srv key rest sent acc"
  by (simp add: blank_title_def)

lemma format_reply_row:
  assumes "success_reply resp"
  shows "format_results_for_csv t
      (JArr (take 41 (case shopping_of (resp_json resp) of None \<Rightarrow> [] | Some xs \<Rightarrow> xs))) None =
    Inr (reply_row t resp)"
proof -
  from assms obtain xs where xs: "shopping_of (resp_json resp) = Some xs" "list_all is_record xs"
    and st: "status_code resp = 200"
    by (auto simp: success_reply_def split: option.splits)
  have "list_all is_record (take 41 xs)"
    using xs(2) by (auto simp: list_all_iff dest: in_set_takeD)
  then have "take 41 xs = map JObj (map the_record (take 41 xs))"
    by (simp only: records_map)
  then have "format_results_for_csv t (JArr (take 41 xs)) None =
      Inr ([(''Product Title'', JStr t), (''Search Status'', JStr ''Success'')]
           @ indexed_fields 1 (map the_record (take 41 xs)))"
    by (metis format_success)
  with xs(1) st show ?thesis by (simp add: reply_row_def)
qed

lemma bulk_step_usable:
  assumes "\<not> blank_title (fst r)"
    and "srv sent (shopping_request key (strip (py_str (fst r))) (lower (lower (strip (py_str (snd r)))))) = Inr resp"
    and "usable_reply resp"
  shows "bulk_loop srv key (r # rest) sent acc =
     bulk_loop srv key rest
       (sent @ [shopping_request key (strip (py_str (fst r))) (lower (lower (strip (py_str (snd r)))))])
       (acc @ [reply_row (strip (py_str (fst r))) resp])"
proof (cases "status_code resp = 200")
  case False
  then have "search_serper_shopping srv key sent (strip (py_str (fst r))) (lower (strip (py_str (snd r)))) =
     (Inr \<lparr>error = Some (serper_error resp), results = JArr []\<rparr>,
      sent @ [shopping_request key (strip (py_str (fst r))) (lower (lower (strip (py_str (snd r)))))])"
    using assms(2) by (intro search_error_status)
  moreover have "format_results_for_csv (strip (py_str (fst r))) (JArr []) (Some (serper_error resp)) =
     Inr (reply_row (strip (py_str (fst r))) resp)"
    using False by (simp add: format_error serper_error_nonempty reply_row_def)
  ultimately show ?thesis using assms(1)
    by (simp add: blank_title_def serper_error_nonempty Let_def)
next
  case True
  with assms(3) have ok: "success_reply resp" by (simp add: usable_reply_def)
  then obtain xs where xs: "shopping_of (resp_json resp) = Some xs"
    by (auto simp: success_reply_def split: option.splits)
  have "search_serper_shopping srv key sent (strip (py_str (fst r))) (lower (strip (py_str (snd r)))) =
     (Inr \<lparr>error = None, results = JArr (take 41 xs)\<rparr>,
      sent @ [shopping_request key (strip (py_str (fst r))) (lower (lower (strip (py_str (snd r)))))])"
    using assms(2) True xs by (intro search_success)
  moreover have "format_results_for_csv (strip (py_str (fst r))) (JArr (take 41 xs)) None =
     Inr (reply_row (strip (py_str (fst r))) resp)"
    using format_reply_row [OF ok] xs by simp
  ultimately show ?thesis using assms(1)
    by (simp add: blank_title_def Let_def)
qed

lemma locale_filled: "lower (lower (strip (py_str (fillna_us c)))) = locale_of (Some c)"
  by (cases c) (simp_all add: lower_idem strip_us lower_us)

lemma fill_country_queries:
  assumes "fill_country df = Some rows"
  shows "map (\<lambda>r. shopping_request key (strip (py_str (fst r))) (lower (lower (strip (py_str (snd r))))))
           (filter (\<lambda>r. \<not> blank_title (fst r)) rows) =
         map (query_of key) (filter (\<lambda>r. \<not> blank_title (fst r)) (df_rows df))"
proof (cases df)
  case NoTitleColumn
  with assms show ?thesis by simp
next
  case (TitleColumn titles)
  with assms have rows: "rows = map (\<lambda>t. (t, Str ''us'')) titles" by simp
  show ?thesis
    unfolding rows TitleColumn df_rows.simps
    by (induction titles) (simp_all add: query_of_def strip_us lower_us)
next
  case (TitleCountryColumns rs)
  with assms have rows: "rows = map (\<lambda>tc. (fst tc, fillna_us (snd tc))) rs" by simp
  show ?thesis
    unfolding rows TitleCountryColumns df_rows.simps
    by (induction rs) (simp_all add: query_of_def locale_filled)
qed

lemma fill_country_titles:
  assumes "fill_country df = Some rows"
  shows "map (\<lambda>r. strip (py_str (fst r))) (filter (\<lambda>r. \<not> blank_title (fst r)) rows) =
         map (\<lambda>r. strip (py_str (fst r))) (filter (\<lambda>r. \<not> blank_title (fst r)) (df_rows df))"
proof (cases df)
  case NoTitleColumn
  with assms show ?thesis by simp
next
  case (TitleColumn titles)
  with assms have rows: "rows = map (\<lambda>t. (t, Str ''us'')) titles" by simp
  show ?thesis
    unfolding rows TitleColumn df_rows.simps
    by (induction titles) simp_all
next
  case (TitleCountryColumns rs)
  with assms have rows: "rows = map (\<lambda>tc. (fst tc, fillna_us (snd tc))) rs" by simp
  show ?thesis
    unfolding rows TitleCountryColumns df_rows.simps
    by (induction rs) simp_all
qed

lemma bulk_sent_prefix:
  "\<exists>n. snd (bulk_loop srv key rows sent acc) =
     sent @ take n (map (\<lambda>r. shopping_request key (strip (py_str (fst r))) (lower (lower (strip (py_str (snd r))))))
                     (filter (\<lambda>r. \<not> blank_title (fst r)) rows))"
proof (induction rows arbitrary: sent acc)
  case Nil
  show ?case by simp
next
  case (Cons r rows)
  let ?req = "\<lambda>r. shopping_request key (strip (py_str (fst r))) (lower (lower (strip (py_str (snd r)))))"
  let ?nb = "\<lambda>r. \<not> blank_title (fst r)"
  show ?case
  proof (cases "blank_title (fst r)")
    case True
    then have "bulk_loop srv key (r # rows) sent acc = bulk_loop srv key rows sent acc"
      by (rule bulk_step_blank)
    with True Cons.IH [of sent acc] show ?thesis by (simp del: bulk_loop.simps)
  next
    case False
    then have nb: "strip (py_str (fst r)) \<noteq> []" by (simp add: blank_title_def)
    obtain res sent' where s: "search_serper_shopping srv key sent (strip (py_str (fst r)))
        (lower (strip (py_str (snd r)))) = (res, sent')"
      by (cases "search_serper_shopping srv key sent (strip (py_str (fst r))) (lower (strip (py_str (snd r))))")
    with search_sent [of srv key sent "strip (py_str (fst r))" "lower (strip (py_str (snd r)))"]
    have sent': "sent' = sent @ [?req r]" by simp
    have filt: "filter ?nb (r # rows) = r # filter ?nb rows" using False by simp
    have one: "sent' = sent @ take 1 (map ?req (filter ?nb (r # rows)))"
      unfolding filt sent' by simp
    from Cons.IH [of sent' ] have more: "\<And>acc'. \<exists>n. snd (bulk_loop srv key rows sent' acc') =
        sent @ take n (map ?req (filter ?nb (r # rows)))"
    proof -
      fix acc'
      from Cons.IH [of sent' acc'] obtain n where
        "snd (bulk_loop srv key rows sent' acc') = sent' @ take n (map ?req (filter ?nb rows))" by blast
      then have "snd (bulk_loop srv key rows sent' acc') =
          sent @ take (Suc n) (map ?req (filter ?nb (r # rows)))"
        unfolding filt sent' by simp
      then show "\<exists>n. snd (bulk_loop srv key rows sent' acc') =
          sent @ take n (map ?req (filter ?nb (r # rows)))" by blast
    qed
    show ?thesis
    proof (cases res)
      case (Inl e)
      with s nb have "snd (bulk_loop srv key (r # rows) sent acc) = sent'" by (simp add: Let_def)
      with one show ?thesis by (intro exI [of _ 1]) simp
    next
      case (Inr response)
      show ?thesis
      proof (cases "if truthy (error response)
                    then format_results_for_csv (strip (py_str (fst r))) (JArr []) (error response)
                    else format_results_for_csv (strip (py_str (fst r))) (results response) None")
        case (Inl e)
        with s nb Inr have "snd (bulk_loop srv key (r # rows) sent acc) = sent'"
          by (simp add: Let_def)
        with one show ?thesis by (intro exI [of _ 1]) simp
      next
        case (Inr formatted_row)
        with s nb \<open>res = Inr response\<close> have "bulk_loop srv key (r # rows) sent acc =
            bulk_loop srv key rows sent' (acc @ [formatted_row])"
          by (simp add: Let_def)
        with more [of "acc @ [formatted_row]"] show ?thesis by simp
      qed
    qed
  qed
qed

lemma reply_row_title: "map_of (reply_row t resp) ''Product Title'' = Some (JStr t)"
  by (simp add: reply_row_def)

lemma bulk_usable_run:
  assumes srv: "\<And>h q. \<exists>resp. srv h q = Inr resp \<and> usable_reply resp"
  shows "\<exists>new. bulk_loop srv key rows sent acc =
       (Inr (acc @ new),
        sent @ map (\<lambda>r. shopping_request key (strip (py_str (fst r))) (lower (lower (strip (py_str (snd r))))))
                 (filter (\<lambda>r. \<not> blank_title (fst r)) rows))
     \<and> map (\<lambda>row. map_of row ''Product Title'') new =
       map (\<lambda>r. Some (JStr (strip (py_str (fst r))))) (filter (\<lambda>r. \<not> blank_title (fst r)) rows)"
proof (induction rows arbitrary: sent acc)
  case Nil
  show ?case by simp
next
  case (Cons r rows)
  let ?req = "\<lambda>r. shopping_request key (strip (py_str (fst r))) (lower (lower (strip (py_str (snd r)))))"
  let ?nb = "\<lambda>r. \<not> blank_title (fst r)"
  show ?case
  proof (cases "blank_title (fst r)")
    case True
    then have "bulk_loop srv key (r # rows) sent acc = bulk_loop srv key rows sent acc"
      by (rule bulk_step_blank)
    with True Cons.IH [of sent acc] show ?thesis by (simp del: bulk_loop.simps)
  next
    case False
    from srv obtain resp where resp: "srv sent (?req r) = Inr resp" "usable_reply resp" by blast
    with False have step: "bulk_loop srv key (r # rows) sent acc =
        bulk_loop srv key rows (sent @ [?req r]) (acc @ [reply_row (strip (py_str (fst r))) resp])"
      by (intro bulk_step_usable)
    from Cons.IH [of "sent @ [?req r]" "acc @ [reply_row (strip (py_str (fst r))) resp]"]
    obtain new where new: "bulk_loop srv key rows (sent @ [?req r]) (acc @ [reply_row (strip (py_str (fst r))) resp]) =
        (Inr ((acc @ [reply_row (strip (py_str (fst r))) resp]) @ new),
         (sent @ [?req r]) @ map ?req (filter ?nb rows))"
      "map (\<lambda>row. map_of row ''Product Title'') new =
         map (\<lambda>r. Some (JStr (strip (py_str (fst r))))) (filter ?nb rows)"
      by blast
    have "bulk_loop srv key (r # rows) sent acc =
        (Inr (acc @ (reply_row (strip (py_str (fst r))) resp # new)),
         sent @ map ?req (filter ?nb (r # rows)))"
      using False by (simp only: step new) simp
    moreover have "map (\<lambda>row. map_of row ''Product Title'') (reply_row (strip (py_str (fst r))) resp # new) =
         map (\<lambda>r. Some (JStr (strip (py_str (fst r))))) (filter ?nb (r # rows))"
      using False new(2) by (simp add: reply_row_title)
    ultimately show ?thesis by blast
  qed
qed

lemma fill_country_df_rows:
  "df \<noteq> NoTitleColumn \<Longrightarrow> fill_country df = Some (map fill_row (df_rows df))"
  by (cases df) (simp_all add: comp_def)

lemma fst_fill_row: "fst (fill_row a) = fst a"
  by (cases a rule: fill_row.cases) simp_all

lemma fill_row_request:
  "shopping_request key (strip (py_str (fst (fill_row a))))
     (lower (lower (strip (py_str (snd (fill_row a)))))) = query_of key a"
  by (cases a rule: fill_row.cases) (simp_all add: query_of_def strip_us lower_us locale_filled)

lemma bulk_step_row:
  assumes "\<not> blank_title (fst a)" "srv sent (query_of key a) = Inr resp" "usable_reply resp"
  shows "bulk_loop srv key (fill_row a # rest) sent acc =
     bulk_loop srv key rest (sent @ [query_of key a]) (acc @ [reply_row (strip (py_str (fst a))) resp])"
proof -
  have nb: "\<not> blank_title (fst (fill_row a))"
    using assms(1) by (simp add: fst_fill_row)
  have call: "srv sent (shopping_request key (strip (py_str (fst (fill_row a))))
                  (lower (lower (strip (py_str (snd (fill_row a))))))) = Inr resp"
    using assms(2) fill_row_request [of key a] by simp
  from bulk_step_usable [where srv = srv and sent = sent and key = key and r = "fill_row a"
      and resp = resp and rest = rest and acc = acc, OF nb call assms(3)]
  show ?thesis using fill_row_request [of key a] by (simp add: fst_fill_row)
qed

lemma run_sent_prefix:
  "\<exists>n. snd (run_bulk_search srv key df sent) =
     sent @ take n (map (query_of key) (filter (\<lambda>r. \<not> blank_title (fst r)) (df_rows df)))"
proof (cases "fill_country df")
  case None
  then show ?thesis by (simp add: run_bulk_search_def)
next
  case (Some rows)
  obtain n where n: "snd (bulk_loop srv key rows sent []) =
     sent @ take n (map (\<lambda>r. shopping_request key (strip (py_str (fst r))) (lower (lower (strip (py_str (snd r))))))
                     (filter (\<lambda>r. \<not> blank_title (fst r)) rows))"
    using bulk_sent_prefix [of srv key rows sent "[]"] by blast
  have "snd (run_bulk_search srv key df sent) = snd (bulk_loop srv key rows sent [])"
    using Some by (simp add: run_bulk_search_def split: prod.splits sum.splits)
  with n fill_country_queries [OF Some, of key] show ?thesis by auto
qed

lemma run_usable:
  assumes "\<And>h q. \<exists>resp. srv h q = Inr resp \<and> usable_reply resp" "df \<noteq> NoTitleColumn"
  shows "\<exists>rows. run_bulk_search srv key df sent =
       (Report rows, sent @ map (query_of key) (filter (\<lambda>r. \<not> blank_title (fst r)) (df_rows df)))
     \<and> map (\<lambda>row. map_of row ''Product Title'') rows =
       map (\<lambda>r. Some (JStr (strip (py_str (fst r))))) (filter (\<lambda>r. \<not> blank_title (fst r)) (df_rows df))"
proof -
  from assms(2) obtain rows where rows: "fill_country df = Some rows"
    by (cases df) simp_all
  from bulk_usable_run [of srv key rows sent "[]", OF assms(1)]
  obtain new where new: "bulk_loop srv key rows sent [] =
       (Inr new,
        sent @ map (\<lambda>r. shopping_request key (strip (py_str (fst r))) (lower (lower (strip (py_str (snd r))))))
                 (filter (\<lambda>r. \<not> blank_title (fst r)) rows))"
     "map (\<lambda>row. map_of row ''Product Title'') new =
       map (\<lambda>r. Some (JStr (strip (py_str (fst r))))) (filter (\<lambda>r. \<not> blank_title (fst r)) rows)"
    by auto
  have titles: "map (\<lambda>r. Some (JStr (strip (py_str (fst r))))) (filter (\<lambda>r. \<not> blank_title (fst r)) rows) =
      map (\<lambda>r. Some (JStr (strip (py_str (fst r))))) (filter (\<lambda>r. \<not> blank_title (fst r)) (df_rows df))"
    using arg_cong [OF fill_country_titles [OF rows], of "map (\<lambda>s. Some (JStr s))"]
    by (simp add: comp_def)
  have "run_bulk_search srv key df sent =
       (Report new, sent @ map (query_of key) (filter (\<lambda>r. \<not> blank_title (fst r)) (df_rows df)))"
    using rows new(1) fill_country_queries [OF rows, of key]
    by (simp add: run_bulk_search_def)
  with new(2) titles show ?thesis by simp
qed

lemma reply_row_success:
  "success_reply resp \<Longrightarrow> map_of (reply_row t resp) ''Search Status'' = Some (JStr ''Success'')"
  by (simp add: reply_row_def success_reply_def)

lemma reply_row_error:
  "status_code resp \<noteq> 200 \<Longrightarrow> reply_row t resp =
     [(''Product Title'', JStr t), (''Search Status'', JStr ''Error''),
      (''Error Message'', JStr (serper_error resp))]"
  by (simp add: reply_row_def)

lemma sublist_status_serper_error: "sublist (str_int (status_code resp)) (serper_error resp)"
  unfolding serper_error_def by (rule sublist_appendI)

section \<open>Properties\<close>

lemma str_int_404: "str_int 404 = ''404''"
  by (simp add: str_int_def str_nat.simps digit_char_def)

text \<open>
  Claim C1. A provider response to the shopping search is read on the success path: its
  status is 200 and its body parses to an object. When the \<open>shopping\<close> array of that
  object has more than 41 items, \<open>search_serper_shopping\<close> returns an outcome whose error
  is \<open>None\<close> and whose results are the first 41 items of the array, in their order.
\<close>

theorem search_serper_shopping_truncates:
  assumes "srv sent (shopping_request api_key query (lower country)) = Inr response"
    and "status_code response = 200"
    and "resp_json response = Some (JObj data)"
    and "map_of data ''shopping'' = Some (JArr items)"
    and "41 < length items"
  shows "search_serper_shopping srv api_key sent query country =
           (Inr \<lparr>error = None, results = JArr (take 41 items)\<rparr>,
            sent @ [shopping_request api_key query (lower country)])
       \<and> length (take 41 items) = 41
       \<and> (\<forall>i<41. take 41 items ! i = items ! i)"
proof -
  from assms(3,4) have "shopping_of (resp_json response) = Some items" by simp
  with assms(1,2) have "search_serper_shopping srv api_key sent query country =
           (Inr \<lparr>error = None, results = JArr (take 41 items)\<rparr>,
            sent @ [shopping_request api_key query (lower country)])"
    by (rule search_success)
  moreover from assms(5) have "length (take 41 items) = 41" by simp
  ultimately show ?thesis by simp
qed

theorem search_serper_shopping_truncates_witness:
  "search_serper_shopping
     (\<lambda>h q. Inr \<lparr>status_code = 200, resp_text = [],
        resp_json = Some (JObj [(''shopping'', JArr (map (\<lambda>n. JInt (int n)) [0..<50]))])\<rparr>)
     ''k'' [] ''widget'' ''us'' =
   (Inr \<lparr>error = None, results = JArr (map (\<lambda>n. JInt (int n)) [0..<41])\<rparr>,
    [shopping_request ''k'' ''widget'' (lower ''us'')])"
  using search_serper_shopping_truncates
    [of "\<lambda>h q. Inr \<lparr>status_code = 200, resp_text = [],
        resp_json = Some (JObj [(''shopping'', JArr (map (\<lambda>n. JInt (int n)) [0..<50]))])\<rparr>"
        "[]" "''k''" "''widget''" "''us''"
        "\<lparr>status_code = 200, resp_text = [],
        resp_json = Some (JObj [(''shopping'', JArr (map (\<lambda>n. JInt (int n)) [0..<50]))])\<rparr>"
        "[(''shopping'', JArr (map (\<lambda>n. JInt (int n)) [0..<50]))]"
        "map (\<lambda>n. JInt (int n)) [0..<50]"]
  by (simp add: take_map)

text \<open>
  Claim C7. An outcome returned by \<open>search_serper_shopping\<close> never has both an error
  and a non-empty results list: on a status other than 200 it carries an error and the
  empty list, on status 200 it carries no error.
\<close>

theorem outcome_error_or_results:
  assumes "search_serper_shopping srv api_key sent query country = (Inr out, sent')"
  shows "\<not> (error out \<noteq> None \<and> results out \<noteq> JArr [])
       \<and> (\<forall>response. srv sent (shopping_request api_key query (lower country)) = Inr response \<longrightarrow>
            (status_code response \<noteq> 200 \<longrightarrow> error out \<noteq> None \<and> results out = JArr []) \<and>
            (status_code response = 200 \<longrightarrow> error out = None))"
  using assms
  by (auto simp: search_serper_shopping_def requests_send_def split: sum.splits if_splits)

theorem outcome_error_or_results_witness:
  "search_serper_shopping (\<lambda>h q. Inr \<lparr>status_code = 404, resp_text = ''gone'', resp_json = None\<rparr>)
     ''k'' [] ''widget'' ''us'' =
   (Inr \<lparr>error = Some ''Serper API error: 404 - gone'', results = JArr []\<rparr>,
    [shopping_request ''k'' ''widget'' (lower ''us'')])
   \<and> \<not> (error \<lparr>error = Some ''Serper API error: 404 - gone'', results = JArr []\<rparr> \<noteq> None
        \<and> results \<lparr>error = Some ''Serper API error: 404 - gone'', results = JArr []\<rparr> \<noteq> JArr [])"
proof -
  have run: "search_serper_shopping (\<lambda>h q. Inr \<lparr>status_code = 404, resp_text = ''gone'', resp_json = None\<rparr>)
     ''k'' [] ''widget'' ''us'' =
   (Inr \<lparr>error = Some ''Serper API error: 404 - gone'', results = JArr []\<rparr>,
    [shopping_request ''k'' ''widget'' (lower ''us'')])"
    by (simp add: search_serper_shopping_def requests_send_def str_int_404)
  from outcome_error_or_results [OF run] run show ?thesis by blast
qed

text \<open>
  Claim C8. When the response has a status other than 200, \<open>search_serper_shopping\<close>
  returns an outcome with the empty result list and an error string that contains the
  decimal status code and the raw response body.
\<close>

theorem search_error_outcome:
  assumes "srv sent (shopping_request api_key query (lower country)) = Inr response"
    and "status_code response \<noteq> 200"
  shows "\<exists>msg. search_serper_shopping srv api_key sent query country =
           (Inr \<lparr>error = Some msg, results = JArr []\<rparr>,
            sent @ [shopping_request api_key query (lower country)])
       \<and> msg = ''Serper API error: '' @ str_int (status_code response) @ '' - '' @ resp_text response
       \<and> sublist (str_int (status_code response)) msg
       \<and> sublist (resp_text response) msg"
proof -
  let ?msg = "''Serper API error: '' @ str_int (status_code response) @ '' - '' @ resp_text response"
  have "search_serper_shopping srv api_key sent query country =
           (Inr \<lparr>error = Some ?msg, results = JArr []\<rparr>,
            sent @ [shopping_request api_key query (lower country)])"
    using search_error_status [where srv = srv and sent = sent and key = api_key and q = query
        and c = country and resp = response, OF assms]
    by (simp add: serper_error_def)
  moreover have "sublist (str_int (status_code response)) ?msg"
    by (rule sublist_appendI)
  moreover have "sublist (resp_text response) ?msg"
    unfolding sublist_def
    by (intro exI [of _ "''Serper API error: '' @ str_int (status_code response) @ '' - ''"] exI [of _ "[]"]) simp
  ultimately show ?thesis by blast
qed

theorem search_error_outcome_witness:
  "\<exists>msg. search_serper_shopping (\<lambda>h q. Inr \<lparr>status_code = 404, resp_text = ''gone'', resp_json = None\<rparr>)
       ''k'' [] ''widget'' ''GB'' =
     (Inr \<lparr>error = Some msg, results = JArr []\<rparr>, [shopping_request ''k'' ''widget'' (lower ''GB'')])
   \<and> msg = ''Serper API error: 404 - gone''
   \<and> sublist ''404'' msg \<and> sublist ''gone'' msg"
  using search_error_outcome
    [of "\<lambda>h q. Inr \<lparr>status_code = 404, resp_text = ''gone'', resp_json = None\<rparr>" "[]" "''k''" "''widget''" "''GB''"
        "\<lparr>status_code = 404, resp_text = ''gone'', resp_json = None\<rparr>"]
  by (simp add: str_int_404)

text \<open>
  Claim C3. For every query text and every list of \<open>k\<close> result records,
  \<open>format_results_for_csv\<close> without an error returns a row that holds the query text and
  the status \<open>Success\<close>, no error message, and the nine indexed columns at exactly the
  positions 1 to \<open>k\<close>; the column \<open>c i\<close> holds what the \<open>i\<close>-th record has under the key of
  \<open>c\<close>, and the empty string when the record has no such key. This holds for every \<open>k\<close>,
  in particular up to 41.
\<close>

theorem format_results_success_row:
  "\<exists>row. format_results_for_csv product_title (JArr (map JObj rs)) None = Inr row
     \<and> map_of row ''Product Title'' = Some (JStr product_title)
     \<and> map_of row ''Search Status'' = Some (JStr ''Success'')
     \<and> map_of row ''Error Message'' = None
     \<and> (\<forall>c\<in>set columns. \<forall>i. (indexed_key c i \<in> fst ` set row) = (1 \<le> i \<and> i \<le> length rs))
     \<and> (\<forall>ck\<in>set column_keys. \<forall>i<length rs.
           map_of row (indexed_key (fst ck) (Suc i)) =
             Some (case map_of (rs ! i) (snd ck) of None \<Rightarrow> JStr '''' | Some v \<Rightarrow> v))
     \<and> length row = 2 + 9 * length rs
     \<and> distinct (map fst row)"
proof -
  let ?head = "[(''Product Title'', JStr product_title), (''Search Status'', JStr ''Success'')]"
  let ?row = "?head @ indexed_fields 1 rs"
  have not_head: "\<And>k. k \<in> fst ` set (indexed_fields 1 rs) \<Longrightarrow>
      k \<noteq> ''Product Title'' \<and> k \<noteq> ''Search Status'' \<and> k \<noteq> ''Error Message''"
  proof -
    fix k
    assume "k \<in> fst ` set (indexed_fields 1 rs)"
    then have "\<exists>c\<in>set columns. \<exists>j. k = indexed_key c j"
      by (rule indexed_fields_keys)
    then obtain c j where "c \<in> set columns" "k = indexed_key c j"
      by blast
    then show "k \<noteq> ''Product Title'' \<and> k \<noteq> ''Search Status'' \<and> k \<noteq> ''Error Message''"
      by (simp add: header_not_indexed)
  qed
  have run: "format_results_for_csv product_title (JArr (map JObj rs)) None = Inr ?row"
    by (rule format_success)
  have title: "map_of ?row ''Product Title'' = Some (JStr product_title)"
    by simp
  have status: "map_of ?row ''Search Status'' = Some (JStr ''Success'')"
    by simp
  have "''Error Message'' \<notin> fst ` set (indexed_fields 1 rs)"
    using not_head by blast
  then have "map_of (indexed_fields 1 rs) ''Error Message'' = None"
    by (simp add: map_of_eq_None_iff)
  then have no_message: "map_of ?row ''Error Message'' = None"
    by simp
  have positions: "\<forall>c\<in>set columns. \<forall>i. (indexed_key c i \<in> fst ` set ?row) = (1 \<le> i \<and> i \<le> length rs)"
  proof (intro ballI allI)
    fix c i
    assume c: "c \<in> set columns"
    have "(indexed_key c i \<in> fst ` set ?row) = (indexed_key c i \<in> fst ` set (indexed_fields 1 rs))"
      using header_not_indexed [OF c, of i] by (auto simp: image_Un)
    also have "\<dots> = (1 \<le> i \<and> i < 1 + length rs)"
      by (rule in_indexed_fields [OF c])
    also have "\<dots> = (1 \<le> i \<and> i \<le> length rs)" by auto
    finally show "(indexed_key c i \<in> fst ` set ?row) = (1 \<le> i \<and> i \<le> length rs)" .
  qed
  have fields: "\<forall>ck\<in>set column_keys. \<forall>i<length rs.
           map_of ?row (indexed_key (fst ck) (Suc i)) =
             Some (case map_of (rs ! i) (snd ck) of None \<Rightarrow> JStr '''' | Some v \<Rightarrow> v)"
  proof (intro ballI allI impI)
    fix ck i
    assume ck: "ck \<in> set column_keys" and i: "i < length rs"
    then have c: "fst ck \<in> set columns" by (simp add: columns_def)
    from ck have "(fst ck, snd ck) \<in> set column_keys" by simp
    then have "map_of (indexed_fields 1 rs) (indexed_key (fst ck) (1 + i)) =
        Some (dict_get (rs ! i) (snd ck) (JStr ''''))"
      using i by (rule map_of_indexed_fields)
    moreover have "indexed_key (fst ck) (Suc i) \<noteq> ''Product Title''"
      "indexed_key (fst ck) (Suc i) \<noteq> ''Search Status''"
      using header_not_indexed [OF c] by blast+
    ultimately show "map_of ?row (indexed_key (fst ck) (Suc i)) =
             Some (case map_of (rs ! i) (snd ck) of None \<Rightarrow> JStr '''' | Some v \<Rightarrow> v)"
      by (simp add: dict_get_def)
  qed
  have len: "length ?row = 2 + 9 * length rs"
    by (simp add: length_indexed_fields)
  have "''Product Title'' \<notin> fst ` set (indexed_fields 1 rs)"
    "''Search Status'' \<notin> fst ` set (indexed_fields 1 rs)"
    using not_head by blast+
  then have dist: "distinct (map fst ?row)"
    by (simp add: distinct_indexed_fields)
  from run title status no_message positions fields len dist show ?thesis
    by blast
qed

lemma indexed_key_Title_1: "indexed_key ''Title'' (Suc 0) = ''Title 1''"
  by (simp add: indexed_key_def str_nat.simps digit_char_def)

lemma indexed_key_Source_1: "indexed_key ''Source'' (Suc 0) = ''Source 1''"
  by (simp add: indexed_key_def str_nat.simps digit_char_def)

theorem format_results_success_row_witness:
  "\<exists>row. format_results_for_csv ''Widget'' (JArr [JObj [(''title'', JStr ''Widget A''), (''price'', JStr ''$5'')]]) None = Inr row
     \<and> map_of row ''Search Status'' = Some (JStr ''Success'')
     \<and> map_of row ''Title 1'' = Some (JStr ''Widget A'')
     \<and> map_of row ''Source 1'' = Some (JStr [])
     \<and> length row = 11"
proof -
  let ?rs = "[[(''title'', JStr ''Widget A''), (''price'', JStr ''$5'')]]"
  from format_results_success_row [of "''Widget''" ?rs]
  obtain row where run: "format_results_for_csv ''Widget'' (JArr (map JObj ?rs)) None = Inr row"
    and status: "map_of row ''Search Status'' = Some (JStr ''Success'')"
    and fields: "\<forall>ck\<in>set column_keys. \<forall>i<length ?rs.
           map_of row (indexed_key (fst ck) (Suc i)) =
             Some (case map_of (?rs ! i) (snd ck) of None \<Rightarrow> JStr [] | Some v \<Rightarrow> v)"
    and len: "length row = 2 + 9 * length ?rs"
    by blast
  have "(''Title'', ''title'') \<in> set column_keys"
    by (simp add: column_keys_def)
  with fields have "\<forall>i<length ?rs.
           map_of row (indexed_key (fst (''Title'', ''title'')) (Suc i)) =
             Some (case map_of (?rs ! i) (snd (''Title'', ''title'')) of None \<Rightarrow> JStr [] | Some v \<Rightarrow> v)"
    by (rule bspec)
  then have title: "map_of row ''Title 1'' = Some (JStr ''Widget A'')"
    by (simp add: indexed_key_Title_1)
  have "(''Source'', ''source'') \<in> set column_keys"
    by (simp add: column_keys_def)
  with fields have "\<forall>i<length ?rs.
           map_of row (indexed_key (fst (''Source'', ''source'')) (Suc i)) =
             Some (case map_of (?rs ! i) (snd (''Source'', ''source'')) of None \<Rightarrow> JStr [] | Some v \<Rightarrow> v)"
    by (rule bspec)
  then have source: "map_of row ''Source 1'' = Some (JStr [])"
    by (simp add: indexed_key_Source_1)
  from run have "format_results_for_csv ''Widget''
      (JArr [JObj [(''title'', JStr ''Widget A''), (''price'', JStr ''$5'')]]) None = Inr row"
    by simp
  moreover from len have "length row = 11" by simp
  ultimately show ?thesis using status title source by blast
qed

text \<open>
  Claim C4. An outcome is what \<open>search_serper_shopping\<close> returns. When it carries an
  error, \<open>format_results_for_csv\<close> called with that error returns, whatever results it
  is given, the row of the query text, the status \<open>Error\<close> and the error message; the row
  has no indexed result column.
\<close>

theorem format_error_row:
  assumes "search_serper_shopping srv api_key sent query country = (Inr out, sent')"
    and "error out \<noteq> None"
  shows "\<exists>msg. error out = Some msg
     \<and> (\<forall>rs. format_results_for_csv product_title rs (error out) =
           Inr [(''Product Title'', JStr product_title), (''Search Status'', JStr ''Error''),
                (''Error Message'', JStr msg)])
     \<and> (\<forall>c\<in>set columns. \<forall>i. indexed_key c i \<notin>
           fst ` set [(''Product Title'', JStr product_title), (''Search Status'', JStr ''Error''),
                      (''Error Message'', JStr msg)])"
proof -
  from assms obtain msg where msg: "error out = Some msg" "msg \<noteq> []"
    by (auto simp: search_serper_shopping_def requests_send_def split: sum.splits if_splits)
  then have "\<forall>rs. format_results_for_csv product_title rs (error out) =
           Inr [(''Product Title'', JStr product_title), (''Search Status'', JStr ''Error''),
                (''Error Message'', JStr msg)]"
    by (simp add: format_error)
  moreover have "\<forall>c\<in>set columns. \<forall>i. indexed_key c i \<notin>
           fst ` set [(''Product Title'', JStr product_title), (''Search Status'', JStr ''Error''),
                      (''Error Message'', JStr msg)]"
    by (simp add: header_not_indexed)
  ultimately show ?thesis using msg(1) by blast
qed

theorem format_error_row_witness:
  "format_results_for_csv ''Widget'' (JArr [JObj [(''title'', JStr ''Widget A'')]])
       (Some ''Serper API error: 404 - gone'') =
     Inr [(''Product Title'', JStr ''Widget''), (''Search Status'', JStr ''Error''),
          (''Error Message'', JStr ''Serper API error: 404 - gone'')]"
proof -
  have run: "search_serper_shopping (\<lambda>h q. Inr \<lparr>status_code = 404, resp_text = ''gone'', resp_json = None\<rparr>)
     ''k'' [] ''Widget'' ''us'' =
   (Inr \<lparr>error = Some ''Serper API error: 404 - gone'', results = JArr []\<rparr>,
    [shopping_request ''k'' ''Widget'' (lower ''us'')])"
    by (simp add: search_serper_shopping_def requests_send_def str_int_404)
  from format_error_row [OF run, of "''Widget''"] show ?thesis by simp
qed

text \<open>
  Claim C10, as the code has it. The error argument is tested for truth (\<open>if error\<close>), so
  an empty error string counts as no error. When the error argument is a non-empty
  string, the row returned does not depend on the results argument: it is the row of
  the three fields \<open>Product Title\<close>, \<open>Search Status\<close> \<open>Error\<close> and \<open>Error Message\<close>.
\<close>

theorem format_error_ignores_results:
  assumes "truthy err"
  shows "format_results_for_csv product_title rs1 err = format_results_for_csv product_title rs2 err
     \<and> (\<exists>msg. err = Some msg \<and>
          format_results_for_csv product_title rs1 err =
            Inr [(''Product Title'', JStr product_title), (''Search Status'', JStr ''Error''),
                 (''Error Message'', JStr msg)])"
proof -
  from assms obtain msg where "err = Some msg" "msg \<noteq> []"
    by (cases err) simp_all
  then show ?thesis by (simp add: format_error)
qed

theorem format_error_ignores_results_witness:
  "format_results_for_csv ''Widget'' (JArr []) (Some ''boom'') =
   format_results_for_csv ''Widget'' (JArr [JObj [(''title'', JStr ''Widget A'')]]) (Some ''boom'')
   \<and> format_results_for_csv ''Widget'' (JArr []) (Some ''boom'') =
     Inr [(''Product Title'', JStr ''Widget''), (''Search Status'', JStr ''Error''),
          (''Error Message'', JStr ''boom'')]"
proof -
  have t: "truthy (Some ''boom'')" by simp
  from format_error_ignores_results
    [OF t, of "''Widget''" "JArr []" "JArr [JObj [(''title'', JStr ''Widget A'')]]"]
  show ?thesis by auto
qed

text \<open>
  Claim C10 as stated fails for the empty error string, which is not \<open>None\<close>: the row then
  has the status \<open>Success\<close>, no error message, and the fields of the results given.
\<close>

theorem format_empty_error_counterexample:
  "format_results_for_csv ''Widget'' (JArr []) (Some []) =
     Inr [(''Product Title'', JStr ''Widget''), (''Search Status'', JStr ''Success'')]
   \<and> format_results_for_csv ''Widget'' (JArr [JObj []]) (Some []) \<noteq>
     format_results_for_csv ''Widget'' (JArr []) (Some [])"
proof -
  have a: "format_results_for_csv ''Widget'' (JArr []) (Some []) =
     Inr [(''Product Title'', JStr ''Widget''), (''Search Status'', JStr ''Success'')]"
    by (simp add: format_results_for_csv_def)
  have "format_results_for_csv ''Widget'' (JArr (map JObj [[]])) None =
     Inr ([(''Product Title'', JStr ''Widget''), (''Search Status'', JStr ''Success'')] @ indexed_fields 1 [[]])"
    by (rule format_success)
  then have b: "format_results_for_csv ''Widget'' (JArr [JObj []]) (Some []) =
     Inr ([(''Product Title'', JStr ''Widget''), (''Search Status'', JStr ''Success'')] @ indexed_fields 1 [[]])"
    by (simp add: format_results_for_csv_def)
  have "indexed_fields 1 [[]] \<noteq> []"
    by (simp add: result_fields_def column_keys_def)
  with a b show ?thesis by simp
qed

text \<open>
  Claim C9. \<open>google_custom_search\<close> has no cap: on status 200 it returns the \<open>items\<close>
  entry of the parsed body as it is, whatever its length, and the empty list when the
  body has no such entry; on any other status it returns an object whose \<open>error\<close> entry
  is a message with the status code and the response body.
\<close>

theorem google_custom_search_uncapped:
  assumes "srv sent (GET ''https://www.googleapis.com/customsearch/v1''
             [(''key'', api_key), (''cx'', cx), (''q'', query)]) = Inr response"
  shows "(status_code response = 200 \<longrightarrow> resp_json response = Some (JObj data) \<longrightarrow>
            map_of data ''items'' = Some (JArr items) \<longrightarrow>
            fst (google_custom_search srv sent query api_key cx) = Inr (JArr items))
     \<and> (status_code response = 200 \<longrightarrow> resp_json response = Some (JObj data) \<longrightarrow>
            map_of data ''items'' = None \<longrightarrow>
            fst (google_custom_search srv sent query api_key cx) = Inr (JArr []))
     \<and> (status_code response \<noteq> 200 \<longrightarrow>
            (\<exists>msg. fst (google_custom_search srv sent query api_key cx) = Inr (JObj [(''error'', JStr msg)])
               \<and> msg = ''Google Custom Search API error: '' @ str_int (status_code response)
                         @ '' - '' @ resp_text response
               \<and> sublist (str_int (status_code response)) msg
               \<and> sublist (resp_text response) msg))"
proof (intro conjI impI)
  assume "status_code response = 200" "resp_json response = Some (JObj data)"
    "map_of data ''items'' = Some (JArr items)"
  with assms show "fst (google_custom_search srv sent query api_key cx) = Inr (JArr items)"
    by (simp add: google_custom_search_def requests_send_def response_json_def dict_get_def)
next
  assume "status_code response = 200" "resp_json response = Some (JObj data)"
    "map_of data ''items'' = None"
  with assms show "fst (google_custom_search srv sent query api_key cx) = Inr (JArr [])"
    by (simp add: google_custom_search_def requests_send_def response_json_def dict_get_def)
next
  let ?msg = "''Google Custom Search API error: '' @ str_int (status_code response) @ '' - '' @ resp_text response"
  assume "status_code response \<noteq> 200"
  with assms have "fst (google_custom_search srv sent query api_key cx) = Inr (JObj [(''error'', JStr ?msg)])"
    by (simp add: google_custom_search_def requests_send_def)
  moreover have "sublist (str_int (status_code response)) ?msg"
    by (rule sublist_appendI)
  moreover have "sublist (resp_text response) ?msg"
    unfolding sublist_def
    by (intro exI [of _ "''Google Custom Search API error: '' @ str_int (status_code response) @ '' - ''"]
          exI [of _ "[]"]) simp
  ultimately show "\<exists>msg. fst (google_custom_search srv sent query api_key cx) = Inr (JObj [(''error'', JStr msg)])
               \<and> msg = ?msg
               \<and> sublist (str_int (status_code response)) msg
               \<and> sublist (resp_text response) msg"
    by blast
qed

theorem google_custom_search_uncapped_witness:
  "fst (google_custom_search
      (\<lambda>h q. Inr \<lparr>status_code = 200, resp_text = [],
         resp_json = Some (JObj [(''items'', JArr (map (\<lambda>n. JInt (int n)) [0..<50]))])\<rparr>)
      [] ''widget'' ''k'' ''cx'') = Inr (JArr (map (\<lambda>n. JInt (int n)) [0..<50]))
   \<and> length (map (\<lambda>n. JInt (int n)) [0..<50]) = 50"
  using google_custom_search_uncapped
    [of "\<lambda>h q. Inr \<lparr>status_code = 200, resp_text = [],
         resp_json = Some (JObj [(''items'', JArr (map (\<lambda>n. JInt (int n)) [0..<50]))])\<rparr>"
        "[]" "''k''" "''cx''" "''widget''"
        "\<lparr>status_code = 200, resp_text = [],
         resp_json = Some (JObj [(''items'', JArr (map (\<lambda>n. JInt (int n)) [0..<50]))])\<rparr>"
        "[(''items'', JArr (map (\<lambda>n. JInt (int n)) [0..<50]))]"
        "map (\<lambda>n. JInt (int n)) [0..<50]"]
  by simp

text \<open>
  Claim C2. Take a table of three rows, none blank, where the provider answers the
  first and third query with a success response (status 200, a body whose \<open>shopping\<close>
  entry is absent or a list of records) and the second with a status other than 200.
  The bulk run ends with a report of three rows in input order: the first and third with
  status \<open>Success\<close>, the second with status \<open>Error\<close> and a message that contains the status
  code. More generally, when every answer is either a success response or has a status
  other than 200, the run ends with a report of one row per non-blank input row: an
  error on a row does not end the run.
\<close>

theorem bulk_run_continues_on_error:
  "(df_rows df = [a1, a2, a3] \<and>
    \<not> blank_title (fst a1) \<and> \<not> blank_title (fst a2) \<and> \<not> blank_title (fst a3) \<and>
    srv sent (query_of key a1) = Inr resp1 \<and> success_reply resp1 \<and>
    srv (sent @ [query_of key a1]) (query_of key a2) = Inr resp2 \<and> status_code resp2 \<noteq> 200 \<and>
    srv (sent @ [query_of key a1, query_of key a2]) (query_of key a3) = Inr resp3 \<and> success_reply resp3
    \<longrightarrow>
    (\<exists>row1 row2 row3 msg.
       run_bulk_search srv key df sent =
         (Report [row1, row2, row3], sent @ [query_of key a1, query_of key a2, query_of key a3])
     \<and> map_of row1 ''Product Title'' = Some (JStr (strip (py_str (fst a1))))
     \<and> map_of row1 ''Search Status'' = Some (JStr ''Success'')
     \<and> row2 = [(''Product Title'', JStr (strip (py_str (fst a2)))), (''Search Status'', JStr ''Error''),
               (''Error Message'', JStr msg)]
     \<and> sublist (str_int (status_code resp2)) msg
     \<and> map_of row3 ''Product Title'' = Some (JStr (strip (py_str (fst a3))))
     \<and> map_of row3 ''Search Status'' = Some (JStr ''Success'')))
   \<and> ((\<forall>h q. \<exists>resp. srv h q = Inr resp \<and> usable_reply resp) \<and> df \<noteq> NoTitleColumn
    \<longrightarrow>
    (\<exists>rows. fst (run_bulk_search srv key df sent) = Report rows
       \<and> length rows = length (filter (\<lambda>r. \<not> blank_title (fst r)) (df_rows df))))"
proof (intro conjI impI)
  assume h: "df_rows df = [a1, a2, a3] \<and>
    \<not> blank_title (fst a1) \<and> \<not> blank_title (fst a2) \<and> \<not> blank_title (fst a3) \<and>
    srv sent (query_of key a1) = Inr resp1 \<and> success_reply resp1 \<and>
    srv (sent @ [query_of key a1]) (query_of key a2) = Inr resp2 \<and> status_code resp2 \<noteq> 200 \<and>
    srv (sent @ [query_of key a1, query_of key a2]) (query_of key a3) = Inr resp3 \<and> success_reply resp3"
  then have df: "df \<noteq> NoTitleColumn" by auto
  from h have rows: "fill_country df = Some [fill_row a1, fill_row a2, fill_row a3]"
    using fill_country_df_rows [OF df] by simp
  from h have u1: "usable_reply resp1" and u2: "usable_reply resp2" and u3: "usable_reply resp3"
    by (simp_all add: usable_reply_def)
  let ?r1 = "reply_row (strip (py_str (fst a1))) resp1"
  let ?r2 = "reply_row (strip (py_str (fst a2))) resp2"
  let ?r3 = "reply_row (strip (py_str (fst a3))) resp3"
  have s1: "bulk_loop srv key [fill_row a1, fill_row a2, fill_row a3] sent [] =
      bulk_loop srv key [fill_row a2, fill_row a3] (sent @ [query_of key a1]) ([] @ [?r1])"
    using h u1 by (intro bulk_step_row) simp_all
  have s2: "bulk_loop srv key [fill_row a2, fill_row a3] (sent @ [query_of key a1]) ([] @ [?r1]) =
      bulk_loop srv key [fill_row a3] ((sent @ [query_of key a1]) @ [query_of key a2]) (([] @ [?r1]) @ [?r2])"
    using h u2 by (intro bulk_step_row) simp_all
  have s3: "bulk_loop srv key [fill_row a3] ((sent @ [query_of key a1]) @ [query_of key a2]) (([] @ [?r1]) @ [?r2]) =
      bulk_loop srv key [] (((sent @ [query_of key a1]) @ [query_of key a2]) @ [query_of key a3])
        ((([] @ [?r1]) @ [?r2]) @ [?r3])"
    using h u3 by (intro bulk_step_row) simp_all
  have "bulk_loop srv key [fill_row a1, fill_row a2, fill_row a3] sent [] =
      (Inr [?r1, ?r2, ?r3], sent @ [query_of key a1, query_of key a2, query_of key a3])"
    by (simp only: s1 s2 s3) simp
  with rows have run: "run_bulk_search srv key df sent =
         (Report [?r1, ?r2, ?r3], sent @ [query_of key a1, query_of key a2, query_of key a3])"
    by (simp add: run_bulk_search_def)
  have t1: "map_of ?r1 ''Product Title'' = Some (JStr (strip (py_str (fst a1))))"
    and t3: "map_of ?r3 ''Product Title'' = Some (JStr (strip (py_str (fst a3))))"
    by (rule reply_row_title)+
  have st1: "map_of ?r1 ''Search Status'' = Some (JStr ''Success'')"
    and st3: "map_of ?r3 ''Search Status'' = Some (JStr ''Success'')"
    using h by (simp_all add: reply_row_success)
  have r2: "?r2 = [(''Product Title'', JStr (strip (py_str (fst a2)))), (''Search Status'', JStr ''Error''),
               (''Error Message'', JStr (serper_error resp2))]"
    using h by (simp add: reply_row_error)
  have msg: "sublist (str_int (status_code resp2)) (serper_error resp2)"
    by (rule sublist_status_serper_error)
  from run t1 st1 r2 msg t3 st3
  show "\<exists>row1 row2 row3 msg.
       run_bulk_search srv key df sent =
         (Report [row1, row2, row3], sent @ [query_of key a1, query_of key a2, query_of key a3])
     \<and> map_of row1 ''Product Title'' = Some (JStr (strip (py_str (fst a1))))
     \<and> map_of row1 ''Search Status'' = Some (JStr ''Success'')
     \<and> row2 = [(''Product Title'', JStr (strip (py_str (fst a2)))), (''Search Status'', JStr ''Error''),
               (''Error Message'', JStr msg)]
     \<and> sublist (str_int (status_code resp2)) msg
     \<and> map_of row3 ''Product Title'' = Some (JStr (strip (py_str (fst a3))))
     \<and> map_of row3 ''Search Status'' = Some (JStr ''Success'')"
    by blast
next
  assume h: "(\<forall>h q. \<exists>resp. srv h q = Inr resp \<and> usable_reply resp) \<and> df \<noteq> NoTitleColumn"
  then have all: "\<And>h q. \<exists>resp. srv h q = Inr resp \<and> usable_reply resp" and df: "df \<noteq> NoTitleColumn"
    by blast+
  from run_usable [of srv df key sent, OF all df]
  obtain rows where rows: "run_bulk_search srv key df sent =
       (Report rows, sent @ map (query_of key) (filter (\<lambda>r. \<not> blank_title (fst r)) (df_rows df)))"
     "map (\<lambda>row. map_of row ''Product Title'') rows =
       map (\<lambda>r. Some (JStr (strip (py_str (fst r))))) (filter (\<lambda>r. \<not> blank_title (fst r)) (df_rows df))"
    by blast
  from rows(2) have "length rows = length (filter (\<lambda>r. \<not> blank_title (fst r)) (df_rows df))"
    using map_eq_imp_length_eq by blast
  with rows(1) show "\<exists>rows. fst (run_bulk_search srv key df sent) = Report rows
       \<and> length rows = length (filter (\<lambda>r. \<not> blank_title (fst r)) (df_rows df))"
    by simp
qed

theorem bulk_run_continues_on_error_witness:
  "(\<exists>row1 row2 row3 msg.
      run_bulk_search
        (\<lambda>h q. if length h = 1 then Inr \<lparr>status_code = 404, resp_text = ''gone'', resp_json = None\<rparr>
                else Inr \<lparr>status_code = 200, resp_text = [], resp_json = Some (JObj [])\<rparr>)
        ''k'' (TitleColumn [Str ''A'', Str ''B'', Str ''C'']) [] =
        (Report [row1, row2, row3],
         [query_of ''k'' (Str ''A'', None), query_of ''k'' (Str ''B'', None), query_of ''k'' (Str ''C'', None)])
    \<and> map_of row1 ''Search Status'' = Some (JStr ''Success'')
    \<and> row2 = [(''Product Title'', JStr ''B''), (''Search Status'', JStr ''Error''), (''Error Message'', JStr msg)]
    \<and> sublist ''404'' msg
    \<and> map_of row3 ''Search Status'' = Some (JStr ''Success''))
   \<and> (\<exists>rows. fst (run_bulk_search
        (\<lambda>h q. if length h = 1 then Inr \<lparr>status_code = 404, resp_text = ''gone'', resp_json = None\<rparr>
                else Inr \<lparr>status_code = 200, resp_text = [], resp_json = Some (JObj [])\<rparr>)
        ''k'' (TitleColumn [Str ''A'', Str ''B'', Str ''C'']) []) = Report rows
      \<and> length rows = 3)"
proof -
  let ?srv = "\<lambda>(h :: request list) (q :: request).
      if length h = 1 then Inr \<lparr>status_code = 404, resp_text = ''gone'', resp_json = None\<rparr>
      else (Inr \<lparr>status_code = 200, resp_text = [], resp_json = Some (JObj [])\<rparr> :: py_error + response)"
  let ?df = "TitleColumn [Str ''A'', Str ''B'', Str ''C'']"
  let ?ok = "\<lparr>status_code = 200, resp_text = [], resp_json = Some (JObj [])\<rparr>"
  let ?bad = "\<lparr>status_code = 404, resp_text = ''gone'', resp_json = None\<rparr>"
  have h1: "df_rows ?df = [(Str ''A'', None), (Str ''B'', None), (Str ''C'', None)] \<and>
    \<not> blank_title (fst (Str ''A'', None :: cell option)) \<and> \<not> blank_title (fst (Str ''B'', None :: cell option)) \<and>
    \<not> blank_title (fst (Str ''C'', None :: cell option)) \<and>
    ?srv [] (query_of ''k'' (Str ''A'', None)) = Inr ?ok \<and> success_reply ?ok \<and>
    ?srv ([] @ [query_of ''k'' (Str ''A'', None)]) (query_of ''k'' (Str ''B'', None)) = Inr ?bad \<and>
    status_code ?bad \<noteq> 200 \<and>
    ?srv ([] @ [query_of ''k'' (Str ''A'', None), query_of ''k'' (Str ''B'', None)]) (query_of ''k'' (Str ''C'', None)) = Inr ?ok \<and>
    success_reply ?ok"
    by (simp add: blank_title_def strip_def isspace_def success_reply_def)
  have h2: "(\<forall>h q. \<exists>resp. ?srv h q = Inr resp \<and> usable_reply resp) \<and> ?df \<noteq> NoTitleColumn"
    by (simp add: usable_reply_def success_reply_def)
  have n: "length (filter (\<lambda>r. \<not> blank_title (fst r)) (df_rows ?df)) = 3"
    by (simp add: blank_title_def strip_def isspace_def)
  have s: "strip (py_str (fst (Str ''B'', None :: cell option))) = ''B''"
    by (simp add: strip_def isspace_def)
  from bulk_run_continues_on_error
    [of ?df "(Str ''A'', None)" "(Str ''B'', None)" "(Str ''C'', None)" ?srv "[]" "''k''" ?ok ?bad ?ok]
    h1 h2
  have "(\<exists>row1 row2 row3 msg.
       run_bulk_search ?srv ''k'' ?df [] =
         (Report [row1, row2, row3],
          [] @ [query_of ''k'' (Str ''A'', None), query_of ''k'' (Str ''B'', None), query_of ''k'' (Str ''C'', None)])
     \<and> map_of row1 ''Product Title'' = Some (JStr (strip (py_str (fst (Str ''A'', None :: cell option)))))
     \<and> map_of row1 ''Search Status'' = Some (JStr ''Success'')
     \<and> row2 = [(''Product Title'', JStr (strip (py_str (fst (Str ''B'', None :: cell option))))),
               (''Search Status'', JStr ''Error''), (''Error Message'', JStr msg)]
     \<and> sublist (str_int (status_code ?bad)) msg
     \<and> map_of row3 ''Product Title'' = Some (JStr (strip (py_str (fst (Str ''C'', None :: cell option)))))
     \<and> map_of row3 ''Search Status'' = Some (JStr ''Success''))
   \<and> (\<exists>rows. fst (run_bulk_search ?srv ''k'' ?df []) = Report rows
       \<and> length rows = length (filter (\<lambda>r. \<not> blank_title (fst r)) (df_rows ?df)))"
    by blast
  then show ?thesis
    unfolding n s by (simp add: str_int_404) blast
qed

lemma lower_GB: "lower ''GB'' = ''gb''"
  by code_simp

lemma example_queries:
  "map (query_of ''k'') (filter (\<lambda>r. \<not> blank_title (fst r))
      (df_rows (TitleCountryColumns [(Str ''Widget A'', Str ''GB''), (Str [], Str ''us''), (Str ''Widget B'', NaN)]))) =
   [shopping_request ''k'' ''Widget A'' ''gb'', shopping_request ''k'' ''Widget B'' ''us'']"
  by (simp add: blank_title_def strip_def isspace_def query_of_def lower_GB)

lemma empty_reply_row:
  "reply_row t \<lparr>status_code = 200, resp_text = [], resp_json = Some (JObj [])\<rparr> =
     [(''Product Title'', JStr t), (''Search Status'', JStr ''Success'')]"
  by (simp add: reply_row_def)

lemma empty_reply_usable: "usable_reply \<lparr>status_code = 200, resp_text = [], resp_json = Some (JObj [])\<rparr>"
  by (simp add: usable_reply_def success_reply_def)

text \<open>
  Claim C5. A bulk input row with an empty query text is to be skipped: no row in the
  report, no call to the provider. The loop does skip a \<open>Product Title\<close> of whitespace
  only. It does not skip the empty cell of an uploaded file: \<open>read_csv\<close> delivers that
  cell as the missing value, \<open>str\<close> renders it as \<open>nan\<close>, and the test of line 151 lets it
  through. On the table of \<open>Widget A\<close>, an empty title and \<open>Widget B\<close> the run makes three
  requests, the second for \<open>nan\<close>, and reports three rows; with a title of one space in
  the middle it makes two requests and reports two rows.
\<close>

theorem empty_title_cell_is_queried:
  "run_bulk_search (\<lambda>h q. Inr \<lparr>status_code = 200, resp_text = [], resp_json = Some (JObj [])\<rparr>) ''k''
       (TitleCountryColumns [(Str ''Widget A'', Str ''GB''), (NaN, Str ''us''), (Str ''Widget B'', NaN)]) [] =
     (Report [[(''Product Title'', JStr ''Widget A''), (''Search Status'', JStr ''Success'')],
              [(''Product Title'', JStr ''nan''), (''Search Status'', JStr ''Success'')],
              [(''Product Title'', JStr ''Widget B''), (''Search Status'', JStr ''Success'')]],
      [shopping_request ''k'' ''Widget A'' ''gb'', shopping_request ''k'' ''nan'' ''us'',
       shopping_request ''k'' ''Widget B'' ''us''])
   \<and> run_bulk_search (\<lambda>h q. Inr \<lparr>status_code = 200, resp_text = [], resp_json = Some (JObj [])\<rparr>) ''k''
       (TitleCountryColumns [(Str ''Widget A'', Str ''GB''), (Str '' '', Str ''us''), (Str ''Widget B'', NaN)]) [] =
     (Report [[(''Product Title'', JStr ''Widget A''), (''Search Status'', JStr ''Success'')],
              [(''Product Title'', JStr ''Widget B''), (''Search Status'', JStr ''Success'')]],
      [shopping_request ''k'' ''Widget A'' ''gb'', shopping_request ''k'' ''Widget B'' ''us''])"
proof -
  let ?ok = "\<lparr>status_code = 200, resp_text = [], resp_json = Some (JObj [])\<rparr>"
  let ?srv = "\<lambda>(h :: request list) (q :: request). (Inr ?ok :: py_error + response)"
  let ?a1 = "(Str ''Widget A'', Some (Str ''GB''))"
  let ?a2 = "(NaN, Some (Str ''us''))"
  let ?b2 = "(Str '' '', Some (Str ''us''))"
  let ?a3 = "(Str ''Widget B'', Some NaN)"
  have q1: "query_of ''k'' ?a1 = shopping_request ''k'' ''Widget A'' ''gb''"
    by (simp add: query_of_def strip_def isspace_def lower_GB)
  have q2: "query_of ''k'' ?a2 = shopping_request ''k'' ''nan'' ''us''"
    by (simp add: query_of_def strip_def isspace_def lower_us)
  have q3: "query_of ''k'' ?a3 = shopping_request ''k'' ''Widget B'' ''us''"
    by (simp add: query_of_def strip_def isspace_def)
  have t1: "strip (py_str (fst ?a1)) = ''Widget A''" and t2: "strip (py_str (fst ?a2)) = ''nan''"
    and t3: "strip (py_str (fst ?a3)) = ''Widget B''"
    by (simp_all add: strip_def isspace_def)
  have n1: "\<not> blank_title (fst ?a1)" and n2: "\<not> blank_title (fst ?a2)" and n3: "\<not> blank_title (fst ?a3)"
    by (simp_all add: blank_title_def strip_def isspace_def)
  have b2: "blank_title (fst (fill_row ?b2))"
    by (simp add: blank_title_def strip_def isspace_def)
  have call: "\<And>h q. ?srv h q = Inr ?ok" by simp
  have step1: "\<And>rest. bulk_loop ?srv ''k'' (fill_row ?a1 # rest) [] [] =
      bulk_loop ?srv ''k'' rest ([] @ [query_of ''k'' ?a1]) ([] @ [reply_row (strip (py_str (fst ?a1))) ?ok])"
    using n1 call empty_reply_usable by (rule bulk_step_row)
  have step2: "\<And>sent acc. bulk_loop ?srv ''k'' [fill_row ?a2, fill_row ?a3] sent acc =
      bulk_loop ?srv ''k'' [fill_row ?a3] (sent @ [query_of ''k'' ?a2])
        (acc @ [reply_row (strip (py_str (fst ?a2))) ?ok])"
    using n2 call empty_reply_usable by (rule bulk_step_row)
  have skip2: "\<And>sent acc. bulk_loop ?srv ''k'' [fill_row ?b2, fill_row ?a3] sent acc =
      bulk_loop ?srv ''k'' [fill_row ?a3] sent acc"
    using b2 by (rule bulk_step_blank)
  have step3: "\<And>sent acc. bulk_loop ?srv ''k'' [fill_row ?a3] sent acc =
      bulk_loop ?srv ''k'' [] (sent @ [query_of ''k'' ?a3])
        (acc @ [reply_row (strip (py_str (fst ?a3))) ?ok])"
    using n3 call empty_reply_usable by (rule bulk_step_row)
  have first: "bulk_loop ?srv ''k'' [fill_row ?a1, fill_row ?a2, fill_row ?a3] [] [] =
      (Inr [[(''Product Title'', JStr ''Widget A''), (''Search Status'', JStr ''Success'')],
            [(''Product Title'', JStr ''nan''), (''Search Status'', JStr ''Success'')],
            [(''Product Title'', JStr ''Widget B''), (''Search Status'', JStr ''Success'')]],
       [shopping_request ''k'' ''Widget A'' ''gb'', shopping_request ''k'' ''nan'' ''us'',
        shopping_request ''k'' ''Widget B'' ''us''])"
    unfolding step1 step2 step3 q1 q2 q3 t1 t2 t3 empty_reply_row by simp
  have second: "bulk_loop ?srv ''k'' [fill_row ?a1, fill_row ?b2, fill_row ?a3] [] [] =
      (Inr [[(''Product Title'', JStr ''Widget A''), (''Search Status'', JStr ''Success'')],
            [(''Product Title'', JStr ''Widget B''), (''Search Status'', JStr ''Success'')]],
       [shopping_request ''k'' ''Widget A'' ''gb'', shopping_request ''k'' ''Widget B'' ''us''])"
    unfolding step1 skip2 step3 q1 q3 t1 t3 empty_reply_row by simp
  have f1: "fill_country (TitleCountryColumns [(Str ''Widget A'', Str ''GB''), (NaN, Str ''us''), (Str ''Widget B'', NaN)]) =
      Some [fill_row ?a1, fill_row ?a2, fill_row ?a3]"
    by simp
  have f2: "fill_country (TitleCountryColumns [(Str ''Widget A'', Str ''GB''), (Str '' '', Str ''us''), (Str ''Widget B'', NaN)]) =
      Some [fill_row ?a1, fill_row ?b2, fill_row ?a3]"
    by simp
  have "run_bulk_search ?srv ''k''
       (TitleCountryColumns [(Str ''Widget A'', Str ''GB''), (NaN, Str ''us''), (Str ''Widget B'', NaN)]) [] =
     (Report [[(''Product Title'', JStr ''Widget A''), (''Search Status'', JStr ''Success'')],
              [(''Product Title'', JStr ''nan''), (''Search Status'', JStr ''Success'')],
              [(''Product Title'', JStr ''Widget B''), (''Search Status'', JStr ''Success'')]],
      [shopping_request ''k'' ''Widget A'' ''gb'', shopping_request ''k'' ''nan'' ''us'',
       shopping_request ''k'' ''Widget B'' ''us''])"
    by (simp only: run_bulk_search_def f1 first option.case prod.case sum.case)
  moreover have "run_bulk_search ?srv ''k''
       (TitleCountryColumns [(Str ''Widget A'', Str ''GB''), (Str '' '', Str ''us''), (Str ''Widget B'', NaN)]) [] =
     (Report [[(''Product Title'', JStr ''Widget A''), (''Search Status'', JStr ''Success'')],
              [(''Product Title'', JStr ''Widget B''), (''Search Status'', JStr ''Success'')]],
      [shopping_request ''k'' ''Widget A'' ''gb'', shopping_request ''k'' ''Widget B'' ''us''])"
    by (simp only: run_bulk_search_def f2 second option.case prod.case sum.case)
  ultimately show ?thesis by (rule conjI)
qed

text \<open>
  Claim C6, as the code has it. The requests of a bulk run are, in order, the queries
  of its non-blank rows (all of them when no call raises), and the query of a row carries
  the locale \<open>us\<close> when the table has no \<open>Country\<close> column or the cell is the missing value,
  and otherwise the text of the cell trimmed and lower-cased. The locale sent never has
  an upper-case letter.
\<close>

theorem bulk_run_locale:
  "(\<exists>n. snd (run_bulk_search srv key df sent) =
         sent @ take n (map (query_of key) (filter (\<lambda>r. \<not> blank_title (fst r)) (df_rows df))))
   \<and> ((\<forall>h q. \<exists>resp. srv h q = Inr resp \<and> usable_reply resp) \<longrightarrow>
        snd (run_bulk_search srv key df sent) =
          sent @ map (query_of key) (filter (\<lambda>r. \<not> blank_title (fst r)) (df_rows df)))
   \<and> query_of key (t, None) = shopping_request key (strip (py_str t)) ''us''
   \<and> query_of key (t, Some NaN) = shopping_request key (strip (py_str t)) ''us''
   \<and> query_of key (t, Some (Str s)) = shopping_request key (strip (py_str t)) (lower (strip s))
   \<and> (\<exists>gl. query_of key (t, c) = shopping_request key (strip (py_str t)) gl \<and> (\<forall>ch\<in>set gl. \<not> isupper ch))"
proof (intro conjI impI)
  show "\<exists>n. snd (run_bulk_search srv key df sent) =
         sent @ take n (map (query_of key) (filter (\<lambda>r. \<not> blank_title (fst r)) (df_rows df)))"
    by (rule run_sent_prefix)
next
  assume all: "\<forall>h q. \<exists>resp. srv h q = Inr resp \<and> usable_reply resp"
  show "snd (run_bulk_search srv key df sent) =
          sent @ map (query_of key) (filter (\<lambda>r. \<not> blank_title (fst r)) (df_rows df))"
  proof (cases "df = NoTitleColumn")
    case True
    then show ?thesis by (simp add: run_bulk_search_def)
  next
    case False
    from all have "\<And>h q. \<exists>resp. srv h q = Inr resp \<and> usable_reply resp" by blast
    from run_usable [of srv df key sent, OF this False] show ?thesis by auto
  qed
next
  show "query_of key (t, None) = shopping_request key (strip (py_str t)) ''us''"
    by (simp add: query_of_def)
next
  show "query_of key (t, Some NaN) = shopping_request key (strip (py_str t)) ''us''"
    by (simp add: query_of_def)
next
  show "query_of key (t, Some (Str s)) = shopping_request key (strip (py_str t)) (lower (strip s))"
    by (simp add: query_of_def)
next
  have "\<forall>ch\<in>set (locale_of c). \<not> isupper ch"
  proof (cases c rule: locale_of.cases)
    case 1
    then show ?thesis by (simp add: isupper_def)
  next
    case 2
    then show ?thesis by (simp add: isupper_def)
  next
    case (3 s)
    then show ?thesis by (simp add: lower_no_upper)
  qed
  moreover have "query_of key (t, c) = shopping_request key (strip (py_str t)) (locale_of c)"
    by (simp add: query_of_def)
  ultimately show "\<exists>gl. query_of key (t, c) = shopping_request key (strip (py_str t)) gl \<and> (\<forall>ch\<in>set gl. \<not> isupper ch)"
    by blast
qed

theorem bulk_run_locale_witness:
  "snd (run_bulk_search (\<lambda>h q. Inr \<lparr>status_code = 200, resp_text = [], resp_json = Some (JObj [])\<rparr>) ''k''
       (TitleCountryColumns [(Str ''Widget A'', Str ''GB''), (Str [], Str ''us''), (Str ''Widget B'', NaN)]) []) =
     [shopping_request ''k'' ''Widget A'' ''gb'', shopping_request ''k'' ''Widget B'' ''us'']"
proof -
  let ?srv = "\<lambda>(h :: request list) (q :: request).
      (Inr \<lparr>status_code = 200, resp_text = [], resp_json = Some (JObj [])\<rparr> :: py_error + response)"
  let ?df = "TitleCountryColumns [(Str ''Widget A'', Str ''GB''), (Str [], Str ''us''), (Str ''Widget B'', NaN)]"
  have h: "\<forall>h q. \<exists>resp. ?srv h q = Inr resp \<and> usable_reply resp"
    by (simp add: usable_reply_def success_reply_def)
  from bulk_run_locale [of ?srv "''k''" ?df "[]"] h
  have "snd (run_bulk_search ?srv ''k'' ?df []) =
          [] @ map (query_of ''k'') (filter (\<lambda>r. \<not> blank_title (fst r)) (df_rows ?df))"
    by blast
  then show ?thesis
    unfolding example_queries by simp
qed

text \<open>
  Claim C6 as stated fails for a \<open>Country\<close> cell that holds only whitespace: it is blank,
  it is not the missing value, and the locale sent is the empty string, not \<open>us\<close>.
\<close>

theorem blank_country_counterexample:
  "snd (run_bulk_search (\<lambda>h q. Inr \<lparr>status_code = 200, resp_text = [], resp_json = Some (JObj [])\<rparr>) ''k''
       (TitleCountryColumns [(Str ''Widget'', Str '' '')]) []) =
     [POST ''https://google.serper.dev/shopping''
        [(''X-API-KEY'', ''k''), (''Content-Type'', ''application/json'')]
        (JObj [(''q'', JStr ''Widget''), (''gl'', JStr [])])]
   \<and> strip '' '' = []"
proof -
  let ?srv = "\<lambda>(h :: request list) (q :: request).
      (Inr \<lparr>status_code = 200, resp_text = [], resp_json = Some (JObj [])\<rparr> :: py_error + response)"
  let ?df = "TitleCountryColumns [(Str ''Widget'', Str '' '')]"
  have h: "\<And>h q. \<exists>resp. ?srv h q = Inr resp \<and> usable_reply resp"
    by (simp add: usable_reply_def success_reply_def)
  have df: "?df \<noteq> NoTitleColumn" by simp
  from run_usable [of ?srv ?df "''k''" "[]", OF h df]
  have "snd (run_bulk_search ?srv ''k'' ?df []) =
      [] @ map (query_of ''k'') (filter (\<lambda>r. \<not> blank_title (fst r)) (df_rows ?df))"
    by auto
  also have "\<dots> = [shopping_request ''k'' ''Widget'' []]"
    by (simp add: blank_title_def strip_def isspace_def query_of_def lower_def)
  finally show ?thesis
    by (simp add: shopping_request_def strip_def isspace_def)
qed

end
